theory Spec2Isabelle
  imports Main
begin

section \<open>Strings\<close>

text \<open>
  A JavaScript string is modelled as a \<^typ>\<open>string\<close>, a list of \<^typ>\<open>char\<close>; one
  \<^typ>\<open>char\<close> stands for one UTF-16 code unit in the range 0 to 255. The characters
  the program treats specially are named here.
\<close>

definition LF :: char where "LF = CHR 0x0A"
definition TAB :: char where "TAB = CHR 0x09"
definition CR :: char where "CR = CHR 0x0D"
definition BACKSLASH :: char where "BACKSLASH = CHR 0x5C"
definition DQUOTE :: char where "DQUOTE = CHR 0x22"

text \<open>
  \<^verbatim>\<open>s.split(sep)\<close> for a separator of one character: the pieces between the separators,
  so that the empty string gives one empty piece.
\<close>

fun js_split :: "char \<Rightarrow> string \<Rightarrow> string list" where
  "js_split sep [] = [[]]"
| "js_split sep (c # cs) =
     (if c = sep then [] # js_split sep cs
      else (case js_split sep cs of
              [] \<Rightarrow> [[c]]
            | l # ls \<Rightarrow> (c # l) # ls))"

text \<open>
  \<^verbatim>\<open>s.replace(/c/g, r)\<close> for a pattern that matches the single character \<open>c\<close>: every
  occurrence is replaced by \<open>r\<close>, which contains no \<^verbatim>\<open>$\<close> pattern in this program.
\<close>

definition replace_all :: "char \<Rightarrow> string \<Rightarrow> string \<Rightarrow> string" where
  "replace_all c r s = concat (map (\<lambda>x. if x = c then r else [x]) s)"

text \<open>\<^verbatim>\<open>xs.join(sep)\<close>.\<close>

fun js_join :: "string \<Rightarrow> string list \<Rightarrow> string" where
  "js_join sep [] = []"
| "js_join sep [x] = x"
| "js_join sep (x # y # ys) = x @ sep @ js_join sep (y # ys)"

section \<open>Text escaper\<close>

text \<open>
  The arrow function of \<^verbatim>\<open>escapeSnippetText\<close>, applied to one line: the four
  replacements in the order of the source.
\<close>

definition escape_line :: "string \<Rightarrow> string" where
  "escape_line line =
     replace_all CR []
       (replace_all TAB [BACKSLASH, CHR ''t'']
         (replace_all DQUOTE [BACKSLASH, DQUOTE]
           (replace_all BACKSLASH [BACKSLASH, BACKSLASH] line)))"

definition escapeSnippetText :: "string \<Rightarrow> string list" where
  "escapeSnippetText text = map escape_line (js_split LF text)"

text \<open>
  Reading an escaped line: a backslash must be followed by a backslash, a double quote or
  the letter t, and the pair is one escape; outside such a pair there is no double quote,
  no tab and no carriage return.
\<close>

fun well_escaped :: "string \<Rightarrow> bool" where
  "well_escaped [] = True"
| "well_escaped [c] = (c \<noteq> BACKSLASH \<and> c \<noteq> DQUOTE \<and> c \<noteq> TAB \<and> c \<noteq> CR)"
| "well_escaped (c # d # cs) =
     (if c = BACKSLASH
      then (d = BACKSLASH \<or> d = DQUOTE \<or> d = CHR ''t'') \<and> well_escaped cs
      else c \<noteq> DQUOTE \<and> c \<noteq> TAB \<and> c \<noteq> CR \<and> well_escaped (d # cs))"

text \<open>Undoing the escapes of a line: each escape pair gives back its character.\<close>

fun unescape :: "string \<Rightarrow> string" where
  "unescape [] = []"
| "unescape [c] = [c]"
| "unescape (c # d # cs) =
     (if c = BACKSLASH
      then (if d = CHR ''t'' then TAB else d) # unescape cs
      else c # unescape (d # cs))"

text \<open>The four replacements together act on one character at a time.\<close>

definition escape_char :: "char \<Rightarrow> string" where
  "escape_char c =
     (if c = BACKSLASH then [BACKSLASH, BACKSLASH]
      else if c = DQUOTE then [BACKSLASH, DQUOTE]
      else if c = TAB then [BACKSLASH, CHR ''t'']
      else if c = CR then []
      else [c])"

section \<open>Numbers in template literals\<close>

definition digit_char :: "nat \<Rightarrow> char" where
  "digit_char d = char_of (48 + d)"

fun show_nat :: "nat \<Rightarrow> string" where
  "show_nat n =
     (if n < 10 then [digit_char n] else show_nat (n div 10) @ [digit_char (n mod 10)])"

declare show_nat.simps [simp del]

definition show_int :: "int \<Rightarrow> string" where
  "show_int i = (if i < 0 then CHR ''-'' # show_nat (nat (- i)) else show_nat (nat i))"

section \<open>Lenient JSON parser\<close>

text \<open>
  A parsed JSON value. A number is kept as the text \<^verbatim>\<open>JSON.stringify\<close> prints for it,
  so zero (of either sign) is \<open>''0''\<close>. An object is the list of its own properties in
  property order.
\<close>

datatype json =
    JNull
  | JBool bool
  | JNum string
  | JStr string
  | JArr "json list"
  | JObj "(string \<times> json) list"

text \<open>
  \<^verbatim>\<open>jsonc.ParseError\<close>: the numeric error code (\<^verbatim>\<open>error\<close>), the offset and the length.
\<close>

record ParseError =
  error_code :: nat
  offset :: nat
  error_length :: nat

record ParseOptions =
  disallowComments :: bool
  allowTrailingComma :: bool
  allowEmptyContent :: bool

text \<open>
  The library function \<^verbatim>\<open>jsonc.parse\<close> is not part of the program: it is a parameter of
  the model. A call either throws a value, kept as its text, or returns a value and the
  errors it pushed onto the array it was given.
\<close>

datatype parse_outcome = Threw string | Returned json "ParseError list"

type_synonym parse_mechanism = "string \<Rightarrow> ParseOptions \<Rightarrow> parse_outcome"

definition snippet_parse_options :: ParseOptions where
  "snippet_parse_options =
     \<lparr>disallowComments = False, allowTrailingComma = True, allowEmptyContent = False\<rparr>"

fun last_index :: "char \<Rightarrow> string \<Rightarrow> nat option" where
  "last_index c [] = None"
| "last_index c (x # xs) =
     (case last_index c xs of
        Some i \<Rightarrow> Some (Suc i)
      | None \<Rightarrow> if x = c then Some 0 else None)"

text \<open>
  \<^verbatim>\<open>s.lastIndexOf(c, fromIndex)\<close>: the last position at or before \<open>fromIndex\<close> that
  holds \<open>c\<close>, or -1.
\<close>

definition lastIndexOf :: "string \<Rightarrow> char \<Rightarrow> nat \<Rightarrow> int" where
  "lastIndexOf s c fromIndex =
     (case last_index c (take (Suc fromIndex) s) of
        None \<Rightarrow> - 1
      | Some i \<Rightarrow> int i)"

text \<open>The arrow function of \<^verbatim>\<open>formatParseErrors\<close>, applied to one error.\<close>

definition format_error :: "string \<Rightarrow> ParseError \<Rightarrow> string" where
  "format_error content e =
     (let lines = js_split LF content;
          lineIndex = length (js_split LF (take (offset e) content)) - 1;
          errorLine = (if lineIndex < length lines then lines ! lineIndex else ''undefined'');
          lastNewLine = lastIndexOf content LF (offset e);
          column = (if lastNewLine = - 1 then int (offset e)
                    else int (offset e) - lastNewLine - 1)
      in ''Line '' @ show_nat (lineIndex + 1) @ '', Column '' @ show_int (column + 1)
         @ '': '' @ show_nat (error_code e) @ [LF] @ errorLine)"

definition formatParseErrors :: "string \<Rightarrow> ParseError list \<Rightarrow> string" where
  "formatParseErrors content parseErrors =
     ''Parsing errors detected:'' @ [LF] @ js_join [LF] (map (format_error content) parseErrors)"

text \<open>
  The column number that \<^verbatim>\<open>formatParseErrors\<close> prints for an offset, as the source
  computes it.
\<close>

definition reported_column :: "string \<Rightarrow> nat \<Rightarrow> int" where
  "reported_column content off =
     (let lastNewLine = lastIndexOf content LF off;
          column = (if lastNewLine = - 1 then int off else int off - lastNewLine - 1)
      in column + 1)"

record ParseResult =
  snippets :: "json option"
  error :: "string option"

definition parseSnippetsFile :: "parse_mechanism \<Rightarrow> string \<Rightarrow> ParseResult" where
  "parseSnippetsFile parse content =
     (case parse content snippet_parse_options of
        Threw description \<Rightarrow>
          \<lparr>snippets = None, error = Some (''Fatal parsing error: '' @ description)\<rparr>
      | Returned result parseErrors \<Rightarrow>
          if length parseErrors > 0
          then \<lparr>snippets = None, error = Some (formatParseErrors content parseErrors)\<rparr>
          else \<lparr>snippets = Some result, error = None\<rparr>)"

text \<open>
  The position of an offset as the specification words it: the line is one more than the
  number of newlines before the offset, the column one more than the number of characters
  between the start of that line and the offset, and the offending line is the line of
  the content with that number.
\<close>

definition line_number :: "string \<Rightarrow> nat \<Rightarrow> nat" where
  "line_number content off = Suc (count_list (take off content) LF)"

definition column_number :: "string \<Rightarrow> nat \<Rightarrow> nat" where
  "column_number content off =
     Suc (length (takeWhile (\<lambda>c. c \<noteq> LF) (rev (take off content))))"

definition line_text :: "string \<Rightarrow> nat \<Rightarrow> string" where
  "line_text content n = js_split LF content ! (n - 1)"

definition error_block :: "string \<Rightarrow> ParseError \<Rightarrow> string" where
  "error_block content e =
     ''Line '' @ show_nat (line_number content (offset e))
     @ '', Column '' @ show_nat (column_number content (offset e))
     @ '': '' @ show_nat (error_code e) @ [LF]
     @ line_text content (line_number content (offset e))"

text \<open>
  An offset the library can report: the start of a token or the end of the content,
  never the position of a newline character.
\<close>

definition token_offset :: "string \<Rightarrow> nat \<Rightarrow> bool" where
  "token_offset content off =
     (off \<le> length content \<and> (off < length content \<longrightarrow> content ! off \<noteq> LF))"

section \<open>Objects and their serialisation\<close>

type_synonym js_object = "(string \<times> json) list"

definition is_digit :: "char \<Rightarrow> bool" where
  "is_digit c = (48 \<le> (of_char c :: nat) \<and> (of_char c :: nat) \<le> 57)"

definition decimal_value :: "string \<Rightarrow> nat" where
  "decimal_value s = foldl (\<lambda>n c. 10 * n + ((of_char c :: nat) - 48)) 0 s"

text \<open>
  A property key is an array index when it is the decimal text of an integer from 0 to
  \<open>2^32 - 2\<close>. Such keys come first in the property order, in ascending order; the other
  keys follow in the order of their creation.
\<close>

definition is_array_index :: "string \<Rightarrow> bool" where
  "is_array_index k =
     (k \<noteq> [] \<and> list_all is_digit k \<and> (hd k \<noteq> CHR ''0'' \<or> k = ''0'')
      \<and> decimal_value k < 2 ^ 32 - 1)"

text \<open>Defining a property on an object: an existing key keeps its place.\<close>

definition set_property :: "js_object \<Rightarrow> string \<Rightarrow> json \<Rightarrow> js_object" where
  "set_property obj k v =
     (if k \<in> fst ` set obj
      then map (\<lambda>(k', v'). if k' = k then (k', v) else (k', v')) obj
      else if is_array_index k
      then takeWhile (\<lambda>(k', _). is_array_index k' \<and> decimal_value k' < decimal_value k) obj
           @ [(k, v)]
           @ dropWhile (\<lambda>(k', _). is_array_index k' \<and> decimal_value k' < decimal_value k) obj
      else obj @ [(k, v)])"

text \<open>The own enumerable properties that a spread copies from a value.\<close>

fun own_properties :: "json \<Rightarrow> js_object" where
  "own_properties (JObj kvs) = kvs"
| "own_properties (JArr xs) = zip (map show_nat [0..<length xs]) xs"
| "own_properties (JStr s) = zip (map show_nat [0..<length s]) (map (\<lambda>c. JStr [c]) s)"
| "own_properties _ = []"

fun truthy :: "json \<Rightarrow> bool" where
  "truthy JNull = False"
| "truthy (JBool b) = b"
| "truthy (JNum s) = (s \<noteq> ''0'')"
| "truthy (JStr s) = (s \<noteq> [])"
| "truthy (JArr _) = True"
| "truthy (JObj _) = True"

definition spread :: "js_object \<Rightarrow> json \<Rightarrow> js_object" where
  "spread target v = foldl (\<lambda>obj (k, x). set_property obj k x) target (own_properties v)"

text \<open>
  The object literal of \<^verbatim>\<open>saveSnippet\<close>: the spread of \<^verbatim>\<open>snippets || {}\<close>, then the
  computed key.
\<close>

definition updatedSnippets :: "json option \<Rightarrow> string \<Rightarrow> json \<Rightarrow> js_object" where
  "updatedSnippets snips name newSnippet =
     set_property
       (spread [] (case snips of
                     None \<Rightarrow> JObj []
                   | Some s \<Rightarrow> if truthy s then s else JObj []))
       name newSnippet"

text \<open>
  A list of properties that is the property order of some object: the array-index keys
  first, ascending, then the other keys, no key twice.
\<close>

definition js_ordered :: "js_object \<Rightarrow> bool" where
  "js_ordered obj =
     (let ks = map fst obj in
      distinct ks
      \<and> sorted_wrt (<) (map decimal_value (takeWhile is_array_index ks))
      \<and> list_all (\<lambda>k. \<not> is_array_index k) (dropWhile is_array_index ks))"

text \<open>The \<^verbatim>\<open>prefix\<close> field of an entry, and the values that are arrays of strings.\<close>

definition prefix_field :: "json \<Rightarrow> json option" where
  "prefix_field entry = (case entry of JObj kvs \<Rightarrow> map_of kvs ''prefix'' | _ \<Rightarrow> None)"

fun is_string_array :: "json \<Rightarrow> bool" where
  "is_string_array (JArr xs) = list_all (\<lambda>x. case x of JStr _ \<Rightarrow> True | _ \<Rightarrow> False) xs"
| "is_string_array _ = False"

text \<open>
  \<^verbatim>\<open>JSON.stringify\<close>'s quoting of a string: the double quote, the backslash and the
  control characters are escaped.
\<close>

definition hex_digit :: "nat \<Rightarrow> char" where
  "hex_digit d = (if d < 10 then char_of (48 + d) else char_of (87 + d))"

definition quote_char :: "char \<Rightarrow> string" where
  "quote_char c =
     (let n = (of_char c :: nat) in
      if n = 8 then [BACKSLASH, CHR ''b'']
      else if n = 9 then [BACKSLASH, CHR ''t'']
      else if n = 10 then [BACKSLASH, CHR ''n'']
      else if n = 12 then [BACKSLASH, CHR ''f'']
      else if n = 13 then [BACKSLASH, CHR ''r'']
      else if n = 34 then [BACKSLASH, DQUOTE]
      else if n = 92 then [BACKSLASH, BACKSLASH]
      else if n < 32 then [BACKSLASH] @ ''u00'' @ [hex_digit (n div 16), hex_digit (n mod 16)]
      else [c])"

definition quote :: "string \<Rightarrow> string" where
  "quote s = [DQUOTE] @ concat (map quote_char s) @ [DQUOTE]"

text \<open>
  \<^verbatim>\<open>JSON.stringify(value, null, 2)\<close>, the first argument of \<open>stringify\<close> being the
  indentation of the enclosing value.
\<close>

fun stringify :: "string \<Rightarrow> json \<Rightarrow> string" where
  "stringify stepback JNull = ''null''"
| "stringify stepback (JBool b) = (if b then ''true'' else ''false'')"
| "stringify stepback (JNum s) = s"
| "stringify stepback (JStr s) = quote s"
| "stringify stepback (JArr xs) =
     (if xs = [] then ''[]''
      else ''['' @ [LF] @ (stepback @ ''  '')
           @ js_join ('','' @ [LF] @ (stepback @ ''  ''))
               (map (\<lambda>x. stringify (stepback @ ''  '') x) xs)
           @ [LF] @ stepback @ '']'')"
| "stringify stepback (JObj kvs) =
     (if kvs = [] then ''{}''
      else ''{'' @ [LF] @ (stepback @ ''  '')
           @ js_join ('','' @ [LF] @ (stepback @ ''  ''))
               (map (\<lambda>kv. quote (fst kv) @ '': '' @ stringify (stepback @ ''  '') (snd kv)) kvs)
           @ [LF] @ stepback @ ''}'')"

definition JSON_stringify :: "json \<Rightarrow> string" where
  "JSON_stringify v = stringify [] v"

section \<open>File system\<close>

text \<open>
  A path is the list of the segments handed to \<^verbatim>\<open>path.join\<close>, which drops the empty
  ones.
\<close>

type_synonym path = "string list"

definition path_join :: "string list \<Rightarrow> path" where
  "path_join segments = filter (\<lambda>s. s \<noteq> []) segments"

text \<open>
  \<^verbatim>\<open>path.join\<close> then joins the segments with a slash and normalises the text, here as
  the POSIX variant of the module does: the text is cut at every slash, an empty
  component and a single dot are dropped, a double dot removes the component before it,
  and is kept only in front of a relative path. A location is the list of the components
  that remain, the root first when the text starts with a slash; the empty location is
  the current directory. The file system is addressed by locations.
\<close>

type_synonym location = "string list"

definition SLASH :: char where "SLASH = CHR 0x2F"

definition push_component :: "bool \<Rightarrow> string list \<Rightarrow> string \<Rightarrow> string list" where
  "push_component allowAboveRoot res c =
     (if c = [] \<or> c = ''.'' then res
      else if c = ''..''
      then (if res \<noteq> [] \<and> last res \<noteq> ''..'' then butlast res
            else if allowAboveRoot then res @ [''..''] else res)
      else res @ [c])"

definition normalizeString :: "bool \<Rightarrow> string list \<Rightarrow> string list" where
  "normalizeString allowAboveRoot components =
     foldl (push_component allowAboveRoot) [] components"

definition resolve :: "path \<Rightarrow> location" where
  "resolve p =
     (let segments = filter (\<lambda>s. s \<noteq> []) p;
          isAbsolute = (case segments of [] \<Rightarrow> False | s # _ \<Rightarrow> hd s = SLASH);
          components = concat (map (js_split SLASH) segments)
      in (if isAbsolute then [[SLASH]] else []) @ normalizeString (\<not> isAbsolute) components)"

text \<open>
  \<^verbatim>\<open>path.dirname\<close> of a normalised path: the path without its last component; the root
  is its own directory.
\<close>

definition dirname :: "location \<Rightarrow> location" where
  "dirname p = (if p = [[SLASH]] then p else butlast p)"

datatype syscall =
    ExistsSync location
  | MkdirSync location
  | ReadFileSync location
  | WriteFileSync location string

datatype exn = Error string | SystemError syscall

text \<open>
  The state of the file system: the directories, the files with their content, and the
  calls made so far.
\<close>

record fsys =
  dirs :: "location list"
  files :: "(location \<times> string) list"
  trace :: "syscall list"

definition is_dir :: "fsys \<Rightarrow> location \<Rightarrow> bool" where
  "is_dir fs p = (p = [] \<or> p = [[SLASH]] \<or> p \<in> set (dirs fs))"

definition logged :: "syscall \<Rightarrow> fsys \<Rightarrow> fsys" where
  "logged c fs = fs\<lparr>trace := trace fs @ [c]\<rparr>"

definition existsSync :: "location \<Rightarrow> fsys \<Rightarrow> bool \<times> fsys" where
  "existsSync p fs = (is_dir fs p \<or> map_of (files fs) p \<noteq> None, logged (ExistsSync p) fs)"

definition self_and_ancestors :: "location \<Rightarrow> location list" where
  "self_and_ancestors p = map (\<lambda>n. take n p) [1..<Suc (length p)]"

text \<open>\<^verbatim>\<open>fs.mkdirSync(p, { recursive: true })\<close>: fails when a file is in the way.\<close>

definition mkdirSync :: "location \<Rightarrow> fsys \<Rightarrow> (exn + unit) \<times> fsys" where
  "mkdirSync p fs =
     (if list_ex (\<lambda>q. map_of (files fs) q \<noteq> None) (self_and_ancestors p)
      then (Inl (SystemError (MkdirSync p)), logged (MkdirSync p) fs)
      else (Inr (),
            logged (MkdirSync p)
              (fs\<lparr>dirs := dirs fs @ filter (\<lambda>q. q \<notin> set (dirs fs)) (self_and_ancestors p)\<rparr>)))"

definition readFileSync :: "location \<Rightarrow> fsys \<Rightarrow> (exn + string) \<times> fsys" where
  "readFileSync p fs =
     (case map_of (files fs) p of
        None \<Rightarrow> (Inl (SystemError (ReadFileSync p)), logged (ReadFileSync p) fs)
      | Some content \<Rightarrow> (Inr content, logged (ReadFileSync p) fs))"

definition writeFileSync :: "location \<Rightarrow> string \<Rightarrow> fsys \<Rightarrow> (exn + unit) \<times> fsys" where
  "writeFileSync p content fs =
     (if is_dir fs (dirname p) \<and> \<not> is_dir fs p
      then (Inr (),
            logged (WriteFileSync p content)
              (fs\<lparr>files := (p, content) # filter (\<lambda>(q, _). q \<noteq> p) (files fs)\<rparr>))
      else (Inl (SystemError (WriteFileSync p content)), logged (WriteFileSync p content) fs))"

section \<open>Interaction flow\<close>

text \<open>
  What the user answers to each input box: \<open>None\<close> when the box is dismissed
  (\<^verbatim>\<open>undefined\<close>), the text otherwise.
\<close>

record responses =
  name_response :: "string option"
  prefixes_response :: "string option"
  description_response :: "string option"
  language_response :: "string option"

definition is_js_whitespace :: "char \<Rightarrow> bool" where
  "is_js_whitespace c = ((of_char c :: nat) \<in> {9, 10, 11, 12, 13, 32, 160})"

definition trim :: "string \<Rightarrow> string" where
  "trim s = rev (dropWhile is_js_whitespace (rev (dropWhile is_js_whitespace s)))"

definition lower_char :: "char \<Rightarrow> char" where
  "lower_char c =
     (let n = (of_char c :: nat) in
      if (65 \<le> n \<and> n \<le> 90) \<or> (192 \<le> n \<and> n \<le> 222 \<and> n \<noteq> 215)
      then char_of (n + 32) else c)"

definition toLowerCase :: "string \<Rightarrow> string" where
  "toLowerCase s = map lower_char s"

definition determineLanguage :: "string \<Rightarrow> responses \<Rightarrow> string option" where
  "determineLanguage languageId r =
     (if languageId \<noteq> [] \<and> languageId \<noteq> ''plaintext'' then Some languageId
      else (case language_response r of
              None \<Rightarrow> None
            | Some language \<Rightarrow> if language \<noteq> [] then Some (toLowerCase language) else None))"

record SnippetInfo =
  name :: string
  prefixes :: "string list"
  description :: string
  language :: string

definition collectSnippetInfo :: "string \<Rightarrow> responses \<Rightarrow> SnippetInfo option" where
  "collectSnippetInfo languageId r =
     (case name_response r of
        None \<Rightarrow> None
      | Some snippetName \<Rightarrow>
          if snippetName = [] then None
          else (case prefixes_response r of
                  None \<Rightarrow> None
                | Some prefixInput \<Rightarrow>
                    if prefixInput = [] then None
                    else (case determineLanguage languageId r of
                            None \<Rightarrow> None
                          | Some lang \<Rightarrow>
                              if lang = [] then None
                              else Some \<lparr>name = snippetName,
                                         prefixes = filter (\<lambda>p. p \<noteq> [])
                                                      (map trim (js_split (CHR '','') prefixInput)),
                                         description =
                                           (case description_response r of
                                              None \<Rightarrow> snippetName
                                            | Some d \<Rightarrow> if d \<noteq> [] then d else snippetName),
                                         language = lang\<rparr>)))"

section \<open>Path resolver and persistence driver\<close>

text \<open>\<^verbatim>\<open>s.includes(sub)\<close>: \<open>sub\<close> occurs somewhere in \<open>s\<close>.\<close>

fun js_includes :: "string \<Rightarrow> string \<Rightarrow> bool" where
  "js_includes [] sub = (sub = [])"
| "js_includes (c # cs) sub = (take (length sub) (c # cs) = sub \<or> js_includes cs sub)"

record EditorInfo =
  isVSCode :: bool
  isCursor :: bool
  appName :: string

text \<open>The argument is \<^verbatim>\<open>vscode.env.appName\<close>, the product name of the host editor.\<close>

definition getEditorInfo :: "string \<Rightarrow> EditorInfo" where
  "getEditorInfo productName =
     \<lparr>isVSCode = (productName = ''Visual Studio Code''),
      isCursor = js_includes productName ''Cursor'',
      appName = productName\<rparr>"

text \<open>The two variables of \<^verbatim>\<open>process.env\<close> the program reads; \<open>None\<close> when unset.\<close>

record environment =
  APPDATA :: "string option"
  HOME :: "string option"

definition baseDir :: "environment \<Rightarrow> string" where
  "baseDir env =
     (case APPDATA env of
        Some a \<Rightarrow> if a \<noteq> [] then a
                  else (case HOME env of Some h \<Rightarrow> h | None \<Rightarrow> [])
      | None \<Rightarrow> (case HOME env of Some h \<Rightarrow> h | None \<Rightarrow> []))"

definition configFolder :: "EditorInfo \<Rightarrow> string" where
  "configFolder ei = (if isVSCode ei then ''Code'' else if isCursor ei then ''Cursor'' else appName ei)"

definition snippetsPath :: "environment \<Rightarrow> string \<Rightarrow> string \<Rightarrow> path" where
  "snippetsPath env productName lang =
     path_join [baseDir env, configFolder (getEditorInfo productName),
                ''User'', ''snippets'', lang @ ''.json'']"

definition newSnippet :: "SnippetInfo \<Rightarrow> string \<Rightarrow> json" where
  "newSnippet snippetInfo selectedText =
     JObj [(''prefix'', JArr (map JStr (prefixes snippetInfo))),
           (''body'', JArr (map JStr (escapeSnippetText selectedText))),
           (''description'', JStr (description snippetInfo))]"

text \<open>The last part of \<^verbatim>\<open>saveSnippet\<close>, from the parsing of the existing content on.\<close>

definition parse_merge_write ::
  "parse_mechanism \<Rightarrow> location \<Rightarrow> SnippetInfo \<Rightarrow> string \<Rightarrow> string \<Rightarrow> fsys \<Rightarrow> (exn + unit) \<times> fsys"
where
  "parse_merge_write parse file snippetInfo selectedText existingContent fs =
     (let r = parseSnippetsFile parse existingContent in
      case error r of
        Some e \<Rightarrow>
          if e \<noteq> [] then (Inl (Error (''Error parsing existing snippets: '' @ e)), fs)
          else writeFileSync file
                 (JSON_stringify (JObj (updatedSnippets (snippets r) (name snippetInfo)
                                          (newSnippet snippetInfo selectedText)))) fs
      | None \<Rightarrow>
          writeFileSync file
            (JSON_stringify (JObj (updatedSnippets (snippets r) (name snippetInfo)
                                     (newSnippet snippetInfo selectedText)))) fs)"

text \<open>The first two parts of \<^verbatim>\<open>saveSnippet\<close>: the directory, then the existing content.\<close>

definition ensure_directory :: "location \<Rightarrow> fsys \<Rightarrow> (exn + unit) \<times> fsys" where
  "ensure_directory snippetsDir fs =
     (let (dirExists, fs1) = existsSync snippetsDir fs
      in if \<not> dirExists then mkdirSync snippetsDir fs1 else (Inr (), fs1))"

definition read_existing :: "location \<Rightarrow> fsys \<Rightarrow> (exn + string) \<times> fsys" where
  "read_existing file fs =
     (let (fileExists, fs1) = existsSync file fs
      in if fileExists then readFileSync file fs1 else (Inr ''{}'', fs1))"

definition saveSnippet ::
  "parse_mechanism \<Rightarrow> environment \<Rightarrow> string \<Rightarrow> SnippetInfo \<Rightarrow> string \<Rightarrow> fsys
   \<Rightarrow> (exn + unit) \<times> fsys"
where
  "saveSnippet parse env productName snippetInfo selectedText fs =
     (let file = resolve (snippetsPath env productName (language snippetInfo));
          snippetsDir = dirname file
      in case ensure_directory snippetsDir fs of
           (Inl e, fs1) \<Rightarrow> (Inl e, fs1)
         | (Inr _, fs1) \<Rightarrow>
             (case read_existing file fs1 of
                (Inl e, fs2) \<Rightarrow> (Inl e, fs2)
              | (Inr existingContent, fs2) \<Rightarrow>
                  parse_merge_write parse file snippetInfo selectedText existingContent fs2))"

section \<open>The command\<close>

record editor =
  languageId :: string
  selectedText :: string

text \<open>
  What the command shows at its end: an error message, an information message, or the
  error message made from a value caught around \<^verbatim>\<open>saveSnippet\<close>.
\<close>

datatype notification =
    ErrorMessage string
  | InformationMessage string
  | CaughtError exn

definition generateSnippet ::
  "parse_mechanism \<Rightarrow> environment \<Rightarrow> string \<Rightarrow> editor option \<Rightarrow> responses \<Rightarrow> fsys
   \<Rightarrow> notification option \<times> fsys"
where
  "generateSnippet parse env productName activeTextEditor r fs =
     (case activeTextEditor of
        None \<Rightarrow> (Some (ErrorMessage ''No active editor''), fs)
      | Some ed \<Rightarrow>
          if selectedText ed = [] then (Some (ErrorMessage ''No text selected''), fs)
          else (case collectSnippetInfo (languageId ed) r of
                  None \<Rightarrow> (None, fs)
                | Some snippetInfo \<Rightarrow>
                    (case saveSnippet parse env productName snippetInfo (selectedText ed) fs of
                       (Inl e, fs') \<Rightarrow> (Some (CaughtError e), fs')
                     | (Inr _, fs') \<Rightarrow>
                         (Some (InformationMessage
                                  (''Snippet '' @ [DQUOTE] @ name snippetInfo @ [DQUOTE]
                                   @ '' added successfully!'')), fs'))))"

section \<open>Sample inputs\<close>

text \<open>
  Three mechanisms to run the model on: one that returns the empty object and reports
  nothing, as the library does on the text \<^verbatim>\<open>{}\<close>; one that reports an error at
  offset 2; one that throws.
\<close>

definition empty_object_parser :: parse_mechanism where
  "empty_object_parser content opts = Returned (JObj []) []"

definition reporting_parser :: parse_mechanism where
  "reporting_parser content opts =
     Returned JNull [\<lparr>error_code = 1, offset = 2, error_length = 1\<rparr>]"

definition throwing_parser :: parse_mechanism where
  "throwing_parser content opts = Threw ''boom''"

definition empty_fsys :: fsys where
  "empty_fsys = \<lparr>dirs = [], files = [], trace = []\<rparr>"

text \<open>
  Sample answers: a name, two prefixes, the description box dismissed, no answer about
  the language.
\<close>

definition sample_responses :: responses where
  "sample_responses =
     \<lparr>name_response = Some ''Test'', prefixes_response = Some ''a, b'',
      description_response = None, language_response = None\<rparr>"

definition sample_environment :: environment where
  "sample_environment = \<lparr>APPDATA = None, HOME = Some ''/home/u''\<rparr>"

text \<open>A sample snippet file with three entries, one of them under an array-index key.\<close>

definition sample_snippets :: js_object where
  "sample_snippets = [(''1'', JNull), (''b'', JBool True), (''a'', JStr ''x'')]"

text \<open>
  Sample snippet information, and a file system that holds a snippet file the sample
  mechanisms do not accept.
\<close>

definition sample_info :: SnippetInfo where
  "sample_info =
     \<lparr>name = ''Test'', prefixes = [''a'', ''b''], description = ''Test'', language = ''python''\<rparr>"

definition sample_file :: location where
  "sample_file = [[SLASH], ''home'', ''u'', ''Code'', ''User'', ''snippets'', ''python.json'']"

definition broken_fsys :: fsys where
  "broken_fsys =
     \<lparr>dirs = [[[SLASH], ''home''], [[SLASH], ''home'', ''u''],
              [[SLASH], ''home'', ''u'', ''Code''],
              [[SLASH], ''home'', ''u'', ''Code'', ''User''],
              [[SLASH], ''home'', ''u'', ''Code'', ''User'', ''snippets'']],
      files = [(sample_file, ''{'' @ [LF] @ ''x}'')],
      trace = []\<rparr>"

text \<open>
  The end-to-end scenario: the selected text, the entry expected for it and the expected
  text of the file.
\<close>

definition scenario_selection :: string where
  "scenario_selection = ''line1'' @ [LF, TAB] @ ''line2'' @ [BACKSLASH] @ ''end''"

definition scenario_entry :: json where
  "scenario_entry =
     JObj [(''prefix'', JArr [JStr ''a'', JStr ''b'']),
           (''body'', JArr [JStr ''line1'',
                            JStr ([BACKSLASH] @ ''tline2'' @ [BACKSLASH, BACKSLASH] @ ''end'')]),
           (''description'', JStr ''Test'')]"

definition scenario_text :: string where
  "scenario_text =
     ''{'' @ [LF] @ ''  '' @ [DQUOTE] @ ''Test'' @ [DQUOTE] @ '': {'' @ [LF] @
     ''    '' @ [DQUOTE] @ ''prefix'' @ [DQUOTE] @ '': ['' @ [LF] @ ''      '' @
     [DQUOTE] @ ''a'' @ [DQUOTE] @ '','' @ [LF] @ ''      '' @ [DQUOTE] @ ''b'' @
     [DQUOTE, LF] @ ''    ],'' @ [LF] @ ''    '' @ [DQUOTE] @ ''body'' @
     [DQUOTE] @ '': ['' @ [LF] @ ''      '' @ [DQUOTE] @ ''line1'' @ [DQUOTE] @
     '','' @ [LF] @ ''      '' @ [DQUOTE, BACKSLASH, BACKSLASH] @ ''tline2'' @
     [BACKSLASH, BACKSLASH, BACKSLASH, BACKSLASH] @ ''end'' @ [DQUOTE, LF] @
     ''    ],'' @ [LF] @ ''    '' @ [DQUOTE] @ ''description'' @ [DQUOTE] @
     '': '' @ [DQUOTE] @ ''Test'' @ [DQUOTE, LF] @ ''  }'' @ [LF] @ ''}''"

section \<open>Properties of the text escaper\<close>

lemma js_split_not_Nil: "js_split sep s \<noteq> []"
  by (induction s) (auto split: list.splits)

lemma length_js_split: "length (js_split sep s) = Suc (count_list s sep)"
  by (induction s) (auto split: list.splits simp: js_split_not_Nil)

lemma special_chars_distinct:
  "BACKSLASH \<noteq> DQUOTE" "BACKSLASH \<noteq> TAB" "BACKSLASH \<noteq> CR" "BACKSLASH \<noteq> CHR ''t''"
  "DQUOTE \<noteq> TAB" "DQUOTE \<noteq> CR" "DQUOTE \<noteq> CHR ''t''" "TAB \<noteq> CR" "TAB \<noteq> CHR ''t''"
  "CR \<noteq> CHR ''t''" "LF \<noteq> BACKSLASH" "LF \<noteq> DQUOTE" "LF \<noteq> TAB" "LF \<noteq> CR"
  by (simp_all add: BACKSLASH_def DQUOTE_def TAB_def CR_def LF_def)

lemma replace_all_Nil: "replace_all c r [] = []"
  by (simp add: replace_all_def)

lemma replace_all_Cons:
  "replace_all c r (x # xs) = (if x = c then r else [x]) @ replace_all c r xs"
  by (simp add: replace_all_def)

lemma replace_all_append:
  "replace_all c r (xs @ ys) = replace_all c r xs @ replace_all c r ys"
  by (simp add: replace_all_def)

lemma escape_line_Nil: "escape_line [] = []"
  by (simp add: escape_line_def replace_all_Nil)

lemma escape_line_Cons: "escape_line (c # cs) = escape_char c @ escape_line cs"
  using special_chars_distinct
  by (simp add: escape_line_def escape_char_def replace_all_Cons replace_all_append
      replace_all_Nil)

lemma escape_line_concat: "escape_line l = concat (map escape_char l)"
  by (induction l) (simp_all add: escape_line_Nil escape_line_Cons)

lemma well_escaped_escape_line: "well_escaped (escape_line l)"
proof (induction l)
  case Nil
  show ?case by (simp add: escape_line_Nil)
next
  case (Cons c cs)
  show ?case
  proof (cases "escape_line cs")
    case Nil
    then show ?thesis
      using special_chars_distinct by (simp add: escape_line_Cons escape_char_def)
  next
    case (Cons d ds)
    with Cons.IH show ?thesis
      using special_chars_distinct by (simp add: escape_line_Cons escape_char_def)
  qed
qed

lemma unescape_escape_line: "unescape (escape_line l) = filter (\<lambda>c. c \<noteq> CR) l"
proof (induction l)
  case Nil
  show ?case by (simp add: escape_line_Nil)
next
  case (Cons c cs)
  show ?case
  proof (cases "escape_line cs")
    case Nil
    with Cons.IH show ?thesis
      using special_chars_distinct by (simp add: escape_line_Cons escape_char_def)
  next
    case (Cons d ds)
    with Cons.IH show ?thesis
      using special_chars_distinct by (simp add: escape_line_Cons escape_char_def)
  qed
qed

lemma escape_line_plain:
  "BACKSLASH \<notin> set l \<Longrightarrow> DQUOTE \<notin> set l \<Longrightarrow> TAB \<notin> set l \<Longrightarrow> CR \<notin> set l
   \<Longrightarrow> escape_line l = l"
  by (induction l) (auto simp: escape_line_Nil escape_line_Cons escape_char_def)

lemma no_tab_cr_escape_line: "TAB \<notin> set (escape_line l) \<and> CR \<notin> set (escape_line l)"
  using special_chars_distinct
  by (induction l) (auto simp: escape_line_Nil escape_line_Cons escape_char_def)

section \<open>Claims about the text escaper\<close>

text \<open>
  Claim C2. For every text, the escaper returns one string per line of the text, that is
  one more than the number of newline characters; every returned string reads as a
  sequence of escapes and plain characters, so it has no backslash or double quote outside
  an escape, no tab and no carriage return; each line goes through the four replacements
  in the order backslash, double quote, tab, carriage return; and nothing else changes:
  undoing the escapes gives back the line without its carriage returns, and a line with
  none of the four characters is returned as it is.
\<close>

theorem escapeSnippetText_one_escaped_string_per_line:
  "length (escapeSnippetText T) = count_list T LF + 1
   \<and> (\<forall>l \<in> set (escapeSnippetText T). well_escaped l \<and> TAB \<notin> set l \<and> CR \<notin> set l)
   \<and> escapeSnippetText T =
       map (\<lambda>line. replace_all CR []
                    (replace_all TAB [BACKSLASH, CHR ''t'']
                      (replace_all DQUOTE [BACKSLASH, DQUOTE]
                        (replace_all BACKSLASH [BACKSLASH, BACKSLASH] line))))
           (js_split LF T)
   \<and> map unescape (escapeSnippetText T) = map (filter (\<lambda>c. c \<noteq> CR)) (js_split LF T)
   \<and> (\<forall>i < length (js_split LF T).
         BACKSLASH \<notin> set (js_split LF T ! i) \<and> DQUOTE \<notin> set (js_split LF T ! i)
         \<and> TAB \<notin> set (js_split LF T ! i) \<and> CR \<notin> set (js_split LF T ! i)
         \<longrightarrow> escapeSnippetText T ! i = js_split LF T ! i)"
proof -
  have count: "length (escapeSnippetText T) = count_list T LF + 1"
    by (simp add: escapeSnippetText_def length_js_split)
  have escaped: "\<forall>l \<in> set (escapeSnippetText T). well_escaped l \<and> TAB \<notin> set l \<and> CR \<notin> set l"
    using well_escaped_escape_line no_tab_cr_escape_line
    by (auto simp: escapeSnippetText_def)
  have order: "escapeSnippetText T =
       map (\<lambda>line. replace_all CR []
                    (replace_all TAB [BACKSLASH, CHR ''t'']
                      (replace_all DQUOTE [BACKSLASH, DQUOTE]
                        (replace_all BACKSLASH [BACKSLASH, BACKSLASH] line))))
           (js_split LF T)"
    by (simp add: escapeSnippetText_def escape_line_def)
  have undo: "map unescape (escapeSnippetText T) = map (filter (\<lambda>c. c \<noteq> CR)) (js_split LF T)"
    by (simp add: escapeSnippetText_def unescape_escape_line)
  have plain: "\<forall>i < length (js_split LF T).
         BACKSLASH \<notin> set (js_split LF T ! i) \<and> DQUOTE \<notin> set (js_split LF T ! i)
         \<and> TAB \<notin> set (js_split LF T ! i) \<and> CR \<notin> set (js_split LF T ! i)
         \<longrightarrow> escapeSnippetText T ! i = js_split LF T ! i"
    by (simp add: escapeSnippetText_def escape_line_plain)
  show ?thesis
    by (rule conjI [OF count conjI [OF escaped conjI [OF order conjI [OF undo plain]]]])
qed

theorem escapeSnippetText_one_escaped_string_per_line_witness:
  "js_split LF (''a'' @ [DQUOTE, LF] @ ''b'') = [[CHR ''a'', DQUOTE], ''b'']
   \<and> escapeSnippetText (''a'' @ [DQUOTE, LF] @ ''b'') = [[CHR ''a'', BACKSLASH, DQUOTE], ''b'']
   \<and> length (escapeSnippetText (''a'' @ [DQUOTE, LF] @ ''b'')) = 2
   \<and> well_escaped [CHR ''a'', BACKSLASH, DQUOTE] \<and> well_escaped ''b''
   \<and> TAB \<notin> set [CHR ''a'', BACKSLASH, DQUOTE] \<and> CR \<notin> set [CHR ''a'', BACKSLASH, DQUOTE]
   \<and> (1::nat) < length (js_split LF (''a'' @ [DQUOTE, LF] @ ''b''))
   \<and> BACKSLASH \<notin> set ''b'' \<and> DQUOTE \<notin> set ''b'' \<and> TAB \<notin> set ''b'' \<and> CR \<notin> set ''b''
   \<and> escapeSnippetText (''a'' @ [DQUOTE, LF] @ ''b'') ! 1 = ''b''"
proof -
  let ?T = "''a'' @ [DQUOTE, LF] @ ''b''"
  note claim = escapeSnippetText_one_escaped_string_per_line [of ?T]
  have split: "js_split LF ?T = [[CHR ''a'', DQUOTE], ''b'']"
    by (simp add: LF_def DQUOTE_def)
  have esc: "escapeSnippetText ?T = [[CHR ''a'', BACKSLASH, DQUOTE], ''b'']"
    unfolding escapeSnippetText_def split
    by (simp add: escape_line_def replace_all_def DQUOTE_def CR_def TAB_def BACKSLASH_def)
  have plain_b: "BACKSLASH \<notin> set ''b'' \<and> DQUOTE \<notin> set ''b'' \<and> TAB \<notin> set ''b'' \<and> CR \<notin> set ''b''"
    by (simp add: BACKSLASH_def DQUOTE_def TAB_def CR_def)
  have newlines: "count_list ?T LF + 1 = 2"
    by (simp add: LF_def DQUOTE_def)
  from claim have "length (escapeSnippetText ?T) = count_list ?T LF + 1"
    by (rule conjunct1)
  with newlines have len: "length (escapeSnippetText ?T) = 2"
    by (simp only:)
  from claim have escaped:
    "\<forall>l \<in> set (escapeSnippetText ?T). well_escaped l \<and> TAB \<notin> set l \<and> CR \<notin> set l"
    by (elim conjE)
  then have first_line: "well_escaped [CHR ''a'', BACKSLASH, DQUOTE]
      \<and> TAB \<notin> set [CHR ''a'', BACKSLASH, DQUOTE] \<and> CR \<notin> set [CHR ''a'', BACKSLASH, DQUOTE]"
    and second_line: "well_escaped ''b''"
    unfolding esc by (simp_all add: BACKSLASH_def DQUOTE_def TAB_def CR_def)
  from claim have plain:
    "\<forall>i < length (js_split LF ?T).
       BACKSLASH \<notin> set (js_split LF ?T ! i) \<and> DQUOTE \<notin> set (js_split LF ?T ! i)
       \<and> TAB \<notin> set (js_split LF ?T ! i) \<and> CR \<notin> set (js_split LF ?T ! i)
       \<longrightarrow> escapeSnippetText ?T ! i = js_split LF ?T ! i"
    by (elim conjE)
  have second: "js_split LF ?T ! 1 = ''b''" and in_range: "(1::nat) < length (js_split LF ?T)"
    unfolding split by simp_all
  from plain [rule_format, OF in_range] plain_b have unchanged: "escapeSnippetText ?T ! 1 = ''b''"
    unfolding second by (elim conjE) simp
  from split esc len first_line second_line in_range plain_b unchanged show ?thesis
    by (intro conjI) (elim conjE, assumption)+
qed

section \<open>Properties of the parser's error report\<close>

lemma count_list_append_char: "count_list (xs @ ys) c = count_list xs c + count_list ys c"
  by (induction xs) auto

lemma count_list_take_le: "count_list (take n xs) c \<le> count_list xs c"
proof -
  have "count_list (take n xs @ drop n xs) c = count_list (take n xs) c + count_list (drop n xs) c"
    by (rule count_list_append_char)
  then show ?thesis by simp
qed

lemma line_number_in_range:
  "1 \<le> line_number content off \<and> line_number content off \<le> length (js_split LF content)"
  by (simp add: line_number_def length_js_split count_list_take_le)

lemma last_index_None: "last_index c s = None \<longleftrightarrow> c \<notin> set s"
  by (induction s) (auto split: option.splits)

lemma last_index_append:
  "last_index c (xs @ ys) =
     (case last_index c ys of
        Some i \<Rightarrow> Some (length xs + i)
      | None \<Rightarrow> last_index c xs)"
  by (induction xs) (auto split: option.splits)

lemma last_index_Some:
  "last_index c s = Some i \<Longrightarrow>
     i < length s \<and> length (takeWhile (\<lambda>x. x \<noteq> c) (rev s)) = length s - i - 1"
proof (induction s arbitrary: i)
  case Nil
  then show ?case by simp
next
  case (Cons x xs)
  show ?case
  proof (cases "last_index c xs")
    case None
    then have "c \<notin> set xs" by (simp add: last_index_None)
    with Cons.prems None show ?thesis
      by (auto split: if_splits simp: takeWhile_append)
  next
    case (Some j)
    with Cons.IH have j: "j < length xs"
      and len: "length (takeWhile (\<lambda>x. x \<noteq> c) (rev xs)) = length xs - j - 1"
      by auto
    from Some have "c \<in> set xs" using last_index_None [of c xs] by auto
    then have "takeWhile (\<lambda>x. x \<noteq> c) (rev xs @ [x]) = takeWhile (\<lambda>x. x \<noteq> c) (rev xs)"
      by (auto simp: takeWhile_append)
    with Cons.prems Some j len show ?thesis by auto
  qed
qed

lemma last_index_at_token_offset:
  assumes "token_offset content off"
  shows "last_index LF (take (Suc off) content) = last_index LF (take off content)"
proof (cases "off < length content")
  case True
  with assms have "content ! off \<noteq> LF" by (simp add: token_offset_def)
  moreover from True have "take (Suc off) content = take off content @ [content ! off]"
    by (rule take_Suc_conv_app_nth)
  ultimately show ?thesis by (simp add: last_index_append)
next
  case False
  then show ?thesis by simp
qed

lemma reported_column_at_token_offset:
  assumes "token_offset content off"
  shows "reported_column content off = int (column_number content off)"
proof (cases "last_index LF (take off content)")
  case None
  then have "LF \<notin> set (rev (take off content))" by (simp add: last_index_None)
  then have tw: "takeWhile (\<lambda>c. c \<noteq> LF) (rev (take off content)) = rev (take off content)"
    by (intro takeWhile_eq_all_conv [THEN iffD2]) auto
  from assms have "length (rev (take off content)) = off" by (simp add: token_offset_def)
  then have "column_number content off = Suc off"
    unfolding column_number_def tw by (simp only:)
  with None last_index_at_token_offset [OF assms] show ?thesis
    by (simp add: reported_column_def lastIndexOf_def)
next
  case (Some i)
  from assms have "length (take off content) = off" by (simp add: token_offset_def)
  with last_index_Some [OF Some] have i: "i < off"
    and "length (takeWhile (\<lambda>c. c \<noteq> LF) (rev (take off content))) = off - i - 1"
    by auto
  then have "column_number content off = Suc (off - i - 1)" by (simp add: column_number_def)
  with Some i last_index_at_token_offset [OF assms] show ?thesis
    by (simp add: reported_column_def lastIndexOf_def)
qed

lemma show_int_of_nat: "show_int (int n) = show_nat n"
  by (simp add: show_int_def)

lemma reported_column_nonneg: "0 \<le> reported_column content off"
proof (cases "last_index LF (take (Suc off) content)")
  case None
  then show ?thesis by (simp add: reported_column_def lastIndexOf_def)
next
  case (Some i)
  from last_index_Some [OF Some] have "i \<le> off" by simp
  with Some show ?thesis by (simp add: reported_column_def lastIndexOf_def)
qed

lemma format_error_block:
  "format_error content e =
     ''Line '' @ show_nat (line_number content (offset e))
     @ '', Column '' @ show_int (reported_column content (offset e))
     @ '': '' @ show_nat (error_code e) @ [LF]
     @ line_text content (line_number content (offset e))"
proof -
  have idx: "length (js_split LF (take (offset e) content)) - 1
             = count_list (take (offset e) content) LF"
    by (simp add: length_js_split)
  have "count_list (take (offset e) content) LF < length (js_split LF content)"
    by (simp add: length_js_split count_list_take_le less_Suc_eq_le)
  with idx show ?thesis
    by (simp add: format_error_def reported_column_def line_number_def line_text_def Let_def)
qed

lemma format_error_at_token_offset:
  "token_offset content (offset e) \<Longrightarrow> format_error content e = error_block content e"
  by (simp add: format_error_block error_block_def reported_column_at_token_offset
      show_int_of_nat)

lemma formatParseErrors_not_Nil: "formatParseErrors content errs \<noteq> []"
  by (simp add: formatParseErrors_def)

section \<open>Claims about the parser\<close>

text \<open>
  Claim C3. The parser fails in two ways. When the parse mechanism throws, the result is
  null with the message \<^verbatim>\<open>Fatal parsing error: \<close> followed by the text of the thrown
  value. When the mechanism reports one or more errors, the result is null with a
  non-empty report, different from every fatal message: the heading followed by one
  block per error, in the order of the report. The block of an error is
  \<^verbatim>\<open>Line L, Column C: \<close>, the numeric code of the error, a newline, and the text of
  line \<open>L\<close> of the content, where \<open>L\<close> is the 1-based line of the error's offset, which
  is a line of the content. For an offset that the mechanism can report, the start of a
  token or the end of the content, \<open>C\<close> is the 1-based column of the offset.
\<close>

theorem parseSnippetsFile_two_tier_failure:
  "(parse content snippet_parse_options = Threw d \<longrightarrow>
      parseSnippetsFile parse content
      = \<lparr>snippets = None, error = Some (''Fatal parsing error: '' @ d)\<rparr>)
   \<and> (parse content snippet_parse_options = Returned v errs \<and> errs \<noteq> [] \<longrightarrow>
        snippets (parseSnippetsFile parse content) = None
        \<and> error (parseSnippetsFile parse content) = Some (formatParseErrors content errs)
        \<and> formatParseErrors content errs \<noteq> []
        \<and> formatParseErrors content errs \<noteq> ''Fatal parsing error: '' @ d'
        \<and> formatParseErrors content errs
            = ''Parsing errors detected:'' @ [LF] @ js_join [LF] (map (format_error content) errs)
        \<and> (\<forall>e \<in> set errs.
              format_error content e
              = ''Line '' @ show_nat (line_number content (offset e))
                @ '', Column '' @ show_int (reported_column content (offset e))
                @ '': '' @ show_nat (error_code e) @ [LF]
                @ line_text content (line_number content (offset e))
              \<and> 1 \<le> line_number content (offset e)
              \<and> line_number content (offset e) \<le> length (js_split LF content)
              \<and> (token_offset content (offset e) \<longrightarrow>
                    reported_column content (offset e) = int (column_number content (offset e))
                    \<and> 1 \<le> column_number content (offset e)
                    \<and> format_error content e = error_block content e)))"
proof (intro conjI impI)
  assume "parse content snippet_parse_options = Threw d"
  then show "parseSnippetsFile parse content
             = \<lparr>snippets = None, error = Some (''Fatal parsing error: '' @ d)\<rparr>"
    by (simp add: parseSnippetsFile_def)
next
  assume reported: "parse content snippet_parse_options = Returned v errs \<and> errs \<noteq> []"
  then show "snippets (parseSnippetsFile parse content) = None"
    by (simp add: parseSnippetsFile_def)
  from reported show "error (parseSnippetsFile parse content) = Some (formatParseErrors content errs)"
    by (simp add: parseSnippetsFile_def)
  show "formatParseErrors content errs \<noteq> []"
    by (rule formatParseErrors_not_Nil)
  show "formatParseErrors content errs \<noteq> ''Fatal parsing error: '' @ d'"
    by (simp add: formatParseErrors_def)
  show "formatParseErrors content errs
        = ''Parsing errors detected:'' @ [LF] @ js_join [LF] (map (format_error content) errs)"
    by (simp add: formatParseErrors_def)
  show "\<forall>e \<in> set errs.
          format_error content e
          = ''Line '' @ show_nat (line_number content (offset e))
            @ '', Column '' @ show_int (reported_column content (offset e))
            @ '': '' @ show_nat (error_code e) @ [LF]
            @ line_text content (line_number content (offset e))
          \<and> 1 \<le> line_number content (offset e)
          \<and> line_number content (offset e) \<le> length (js_split LF content)
          \<and> (token_offset content (offset e) \<longrightarrow>
                reported_column content (offset e) = int (column_number content (offset e))
                \<and> 1 \<le> column_number content (offset e)
                \<and> format_error content e = error_block content e)"
  proof (intro ballI conjI impI)
    fix e
    show "format_error content e
          = ''Line '' @ show_nat (line_number content (offset e))
            @ '', Column '' @ show_int (reported_column content (offset e))
            @ '': '' @ show_nat (error_code e) @ [LF]
            @ line_text content (line_number content (offset e))"
      by (rule format_error_block)
    show "1 \<le> line_number content (offset e)"
      using line_number_in_range by blast
    show "line_number content (offset e) \<le> length (js_split LF content)"
      using line_number_in_range by blast
    show "1 \<le> column_number content (offset e)"
      by (simp add: column_number_def)
    assume tok: "token_offset content (offset e)"
    then show "reported_column content (offset e) = int (column_number content (offset e))"
      by (rule reported_column_at_token_offset)
    from tok show "format_error content e = error_block content e"
      by (rule format_error_at_token_offset)
  qed
qed

theorem parseSnippetsFile_two_tier_failure_witness:
  "parseSnippetsFile throwing_parser ''{''
   = \<lparr>snippets = None, error = Some ''Fatal parsing error: boom''\<rparr>
   \<and> snippets (parseSnippetsFile reporting_parser (''{'' @ [LF] @ ''x}'')) = None
   \<and> error (parseSnippetsFile reporting_parser (''{'' @ [LF] @ ''x}''))
       = Some (''Parsing errors detected:'' @ [LF] @ ''Line 2, Column 1: 1'' @ [LF] @ ''x}'')
   \<and> token_offset (''{'' @ [LF] @ ''x}'') 2
   \<and> format_error (''{'' @ [LF] @ ''x}'') \<lparr>error_code = 1, offset = 2, error_length = 1\<rparr>
       = error_block (''{'' @ [LF] @ ''x}'') \<lparr>error_code = 1, offset = 2, error_length = 1\<rparr>
   \<and> error_block (''{'' @ [LF] @ ''x}'') \<lparr>error_code = 1, offset = 2, error_length = 1\<rparr>
       = ''Line 2, Column 1: 1'' @ [LF] @ ''x}''"
proof -
  let ?c = "''{'' @ [LF] @ ''x}''"
  let ?e = "\<lparr>error_code = 1, offset = 2, error_length = 1\<rparr>"
  let ?p = reporting_parser
  have thrown: "throwing_parser ''{'' snippet_parse_options
                = Threw ''boom''"
    by (simp add: throwing_parser_def)
  have fatal: "parseSnippetsFile throwing_parser ''{''
               = \<lparr>snippets = None, error = Some ''Fatal parsing error: boom''\<rparr>"
    using parseSnippetsFile_two_tier_failure
            [of throwing_parser "''{''" "''boom''" JNull "[]" "[]",
             THEN conjunct1, THEN mp, OF thrown]
    by simp
  have reported: "?p ?c snippet_parse_options = Returned JNull [?e] \<and> [?e] \<noteq> []"
    by (simp add: reporting_parser_def)
  note tier = parseSnippetsFile_two_tier_failure
                [of ?p ?c "[]" JNull "[?e]" "[]", THEN conjunct2, THEN mp, OF reported]
  have tok: "token_offset ?c 2"
    by (simp add: token_offset_def LF_def)
  have block: "error_block ?c ?e = ''Line 2, Column 1: 1'' @ [LF] @ ''x}''"
    by code_simp
  from tier have null: "snippets (parseSnippetsFile ?p ?c) = None"
    by (rule conjunct1)
  from tier have report: "error (parseSnippetsFile ?p ?c) = Some (formatParseErrors ?c [?e])"
    by (elim conjE)
  from tier have shape: "formatParseErrors ?c [?e]
      = ''Parsing errors detected:'' @ [LF] @ js_join [LF] (map (format_error ?c) [?e])"
    by (elim conjE)
  from tier have each: "\<forall>e \<in> set [?e].
      format_error ?c e
      = ''Line '' @ show_nat (line_number ?c (offset e))
        @ '', Column '' @ show_int (reported_column ?c (offset e))
        @ '': '' @ show_nat (error_code e) @ [LF]
        @ line_text ?c (line_number ?c (offset e))
      \<and> 1 \<le> line_number ?c (offset e)
      \<and> line_number ?c (offset e) \<le> length (js_split LF ?c)
      \<and> (token_offset ?c (offset e) \<longrightarrow>
            reported_column ?c (offset e) = int (column_number ?c (offset e))
            \<and> 1 \<le> column_number ?c (offset e)
            \<and> format_error ?c e = error_block ?c e)"
    by (elim conjE)
  have mem: "?e \<in> set [?e]"
    by simp
  have tok': "token_offset ?c (offset ?e)"
    using tok by simp
  have same: "format_error ?c ?e = error_block ?c ?e"
    by (rule each [THEN bspec, OF mem, THEN conjunct2, THEN conjunct2, THEN conjunct2,
                   THEN mp, OF tok', THEN conjunct2, THEN conjunct2])
  from report shape same block
  have msg: "error (parseSnippetsFile ?p ?c)
      = Some (''Parsing errors detected:'' @ [LF] @ ''Line 2, Column 1: 1'' @ [LF] @ ''x}'')"
    by simp
  from fatal null msg tok same block show ?thesis
    by (intro conjI)
qed

section \<open>Claims about the interaction flow\<close>

lemma determineLanguage_description:
  "determineLanguage lid (r\<lparr>description_response := d\<rparr>) = determineLanguage lid r"
  by (simp add: determineLanguage_def)

lemma determineLanguage_not_Nil: "determineLanguage lid r \<noteq> Some []"
  by (simp add: determineLanguage_def toLowerCase_def split: option.splits)

text \<open>
  Claim C10. Dismissing the description prompt does not abort the flow and gives the same
  result as submitting an empty description: once the name and the prefixes are given,
  the flow goes on to the language, it is aborted exactly when the language cannot be
  determined, and otherwise the stored description is the snippet name.
\<close>

theorem collectSnippetInfo_description_cancelled:
  "collectSnippetInfo lid (r\<lparr>description_response := None\<rparr>)
   = collectSnippetInfo lid (r\<lparr>description_response := Some []\<rparr>)
   \<and> (name_response r = Some n \<and> n \<noteq> [] \<and> prefixes_response r = Some p \<and> p \<noteq> []
        \<and> description_response r = None \<longrightarrow>
        collectSnippetInfo lid r
        = map_option
            (\<lambda>lang. \<lparr>name = n,
                      prefixes = filter (\<lambda>x. x \<noteq> []) (map trim (js_split (CHR '','') p)),
                      description = n,
                      language = lang\<rparr>)
            (determineLanguage lid r))"
proof (intro conjI impI)
  show "collectSnippetInfo lid (r\<lparr>description_response := None\<rparr>)
        = collectSnippetInfo lid (r\<lparr>description_response := Some []\<rparr>)"
    by (simp add: collectSnippetInfo_def determineLanguage_description split: option.splits)
next
  assume "name_response r = Some n \<and> n \<noteq> [] \<and> prefixes_response r = Some p \<and> p \<noteq> []
          \<and> description_response r = None"
  then show "collectSnippetInfo lid r
        = map_option
            (\<lambda>lang. \<lparr>name = n,
                      prefixes = filter (\<lambda>x. x \<noteq> []) (map trim (js_split (CHR '','') p)),
                      description = n,
                      language = lang\<rparr>)
            (determineLanguage lid r)"
    using determineLanguage_not_Nil [of lid r]
    by (auto simp: collectSnippetInfo_def split: option.splits)
qed

theorem collectSnippetInfo_description_cancelled_witness:
  "name_response sample_responses = Some ''Test'' \<and> ''Test'' \<noteq> []
   \<and> prefixes_response sample_responses = Some ''a, b'' \<and> ''a, b'' \<noteq> []
   \<and> description_response sample_responses = None
   \<and> determineLanguage ''python'' sample_responses = Some ''python''
   \<and> collectSnippetInfo ''python'' sample_responses
       = Some \<lparr>name = ''Test'', prefixes = [''a'', ''b''], description = ''Test'',
               language = ''python''\<rparr>"
proof -
  have given: "name_response sample_responses = Some ''Test'' \<and> ''Test'' \<noteq> []
      \<and> prefixes_response sample_responses = Some ''a, b'' \<and> ''a, b'' \<noteq> []
      \<and> description_response sample_responses = None"
    by (simp add: sample_responses_def)
  have lang: "determineLanguage ''python'' sample_responses = Some ''python''"
    by (simp add: determineLanguage_def)
  have pieces: "filter (\<lambda>x. x \<noteq> []) (map trim (js_split (CHR '','') ''a, b'')) = [''a'', ''b'']"
    by (simp add: trim_def is_js_whitespace_def)
  note flow = collectSnippetInfo_description_cancelled
                [of "''python''" sample_responses "''Test''" "''a, b''",
                 THEN conjunct2, THEN mp, OF given]
  have result: "collectSnippetInfo ''python'' sample_responses
      = Some \<lparr>name = ''Test'', prefixes = [''a'', ''b''], description = ''Test'',
              language = ''python''\<rparr>"
    unfolding flow lang pieces by simp
  from given lang result show ?thesis
    by (intro conjI) (elim conjE, assumption)+
qed

lemma trim_ends:
  assumes "trim s \<noteq> []"
  shows "\<not> is_js_whitespace (hd (trim s)) \<and> \<not> is_js_whitespace (last (trim s))"
proof -
  let ?t = "dropWhile is_js_whitespace s"
  let ?u = "dropWhile is_js_whitespace (rev ?t)"
  from assms have u: "?u \<noteq> []" by (simp add: trim_def)
  have t: "?t \<noteq> []"
  proof
    assume "?t = []"
    then have "?u = []" by (simp only: rev.simps dropWhile.simps)
    with u show False by contradiction
  qed
  have "last (trim s) = hd ?u" using u by (simp add: trim_def last_rev)
  moreover have "\<not> is_js_whitespace (hd ?u)" using u by (rule hd_dropWhile)
  moreover have "hd (trim s) = last ?u" using u by (simp add: trim_def hd_rev)
  moreover have "last ?u = last (rev ?t)"
  proof -
    have "rev ?t = takeWhile is_js_whitespace (rev ?t) @ ?u" by simp
    then have "last (rev ?t) = last (takeWhile is_js_whitespace (rev ?t) @ ?u)" by simp
    also have "\<dots> = last ?u" using u by (rule last_appendR)
    finally show ?thesis by simp
  qed
  moreover have "last (rev ?t) = hd ?t" using t by (simp add: last_rev)
  moreover have "\<not> is_js_whitespace (hd ?t)" using t by (rule hd_dropWhile)
  ultimately show ?thesis by simp
qed

text \<open>
  Claim C1, as stated, fails: a prefixes answer of commas and spaces only is not empty,
  so the flow goes on with no prefix at all and the snippet file is written.
\<close>

theorem collectSnippetInfo_no_prefix_counterexample:
  "collectSnippetInfo ''python'' (sample_responses\<lparr>prefixes_response := Some '', , ''\<rparr>)
   = Some \<lparr>name = ''Test'', prefixes = [], description = ''Test'', language = ''python''\<rparr>
   \<and> fst (generateSnippet empty_object_parser sample_environment ''Visual Studio Code''
             (Some \<lparr>languageId = ''python'', selectedText = ''x''\<rparr>)
             (sample_responses\<lparr>prefixes_response := Some '', , ''\<rparr>) empty_fsys)
       = Some (InformationMessage
                 (''Snippet '' @ [DQUOTE] @ ''Test'' @ [DQUOTE] @ '' added successfully!''))
   \<and> files (snd (generateSnippet empty_object_parser sample_environment ''Visual Studio Code''
                   (Some \<lparr>languageId = ''python'', selectedText = ''x''\<rparr>)
                   (sample_responses\<lparr>prefixes_response := Some '', , ''\<rparr>) empty_fsys))
       = [(sample_file,
          ''{'' @ [LF] @ ''  '' @ [DQUOTE] @ ''Test'' @ [DQUOTE] @ '': {'' @ [LF] @
          ''    '' @ [DQUOTE] @ ''prefix'' @ [DQUOTE] @ '': [],'' @ [LF] @
          ''    '' @ [DQUOTE] @ ''body'' @ [DQUOTE] @ '': ['' @ [LF] @ ''      '' @
          [DQUOTE] @ ''x'' @ [DQUOTE, LF] @ ''    ],'' @ [LF] @ ''    '' @
          [DQUOTE] @ ''description'' @ [DQUOTE] @ '': '' @ [DQUOTE] @ ''Test'' @
          [DQUOTE, LF] @ ''  }'' @ [LF] @ ''}'')]"
  by code_simp

text \<open>
  Claim C1, amended. Whenever the flow returns snippet information, the prefixes answer was
  given and not empty, and the prefixes are the pieces of the answer between commas,
  trimmed, without the empty ones: none is empty and none starts or ends with
  whitespace. When the prefixes answer is dismissed or empty, the flow is aborted: the
  command ends with the file system as it was, no call made, and, where an editor with a
  selection is active, without any notification.
\<close>

theorem collectSnippetInfo_prefixes:
  "(collectSnippetInfo lid r = Some info \<longrightarrow>
      (\<exists>p. prefixes_response r = Some p \<and> p \<noteq> []
           \<and> prefixes info = filter (\<lambda>x. x \<noteq> []) (map trim (js_split (CHR '','') p)))
      \<and> (\<forall>x \<in> set (prefixes info).
            x \<noteq> [] \<and> \<not> is_js_whitespace (hd x) \<and> \<not> is_js_whitespace (last x)))
   \<and> (prefixes_response r = None \<or> prefixes_response r = Some [] \<longrightarrow>
        collectSnippetInfo lid r = None
        \<and> snd (generateSnippet parse env productName activeTextEditor r fs) = fs
        \<and> (activeTextEditor = Some ed \<and> selectedText ed \<noteq> [] \<longrightarrow>
             generateSnippet parse env productName activeTextEditor r fs = (None, fs)))"
proof (intro conjI impI)
  assume some: "collectSnippetInfo lid r = Some info"
  then show "\<exists>p. prefixes_response r = Some p \<and> p \<noteq> []
           \<and> prefixes info = filter (\<lambda>x. x \<noteq> []) (map trim (js_split (CHR '','') p))"
    by (auto simp: collectSnippetInfo_def split: option.splits if_splits)
  then obtain p where
    "prefixes info = filter (\<lambda>x. x \<noteq> []) (map trim (js_split (CHR '','') p))"
    by blast
  then show "\<forall>x \<in> set (prefixes info).
            x \<noteq> [] \<and> \<not> is_js_whitespace (hd x) \<and> \<not> is_js_whitespace (last x)"
    using trim_ends by auto
next
  assume none: "prefixes_response r = None \<or> prefixes_response r = Some []"
  then have abort: "\<And>l. collectSnippetInfo l r = None"
    by (auto simp: collectSnippetInfo_def split: option.splits)
  show "collectSnippetInfo lid r = None"
    by (rule abort)
  show "snd (generateSnippet parse env productName activeTextEditor r fs) = fs"
    by (simp add: generateSnippet_def abort split: option.splits)
  assume "activeTextEditor = Some ed \<and> selectedText ed \<noteq> []"
  then show "generateSnippet parse env productName activeTextEditor r fs = (None, fs)"
    by (simp add: generateSnippet_def abort)
qed

theorem collectSnippetInfo_prefixes_witness:
  "collectSnippetInfo ''python'' sample_responses
   = Some \<lparr>name = ''Test'', prefixes = [''a'', ''b''], description = ''Test'',
           language = ''python''\<rparr>
   \<and> ''a'' \<noteq> [] \<and> \<not> is_js_whitespace (hd ''a'') \<and> \<not> is_js_whitespace (last ''a'')
   \<and> prefixes_response (sample_responses\<lparr>prefixes_response := None\<rparr>) = None
   \<and> collectSnippetInfo ''python'' (sample_responses\<lparr>prefixes_response := None\<rparr>) = None
   \<and> generateSnippet empty_object_parser \<lparr>APPDATA = None, HOME = Some ''/home/u''\<rparr>
         ''Visual Studio Code'' (Some \<lparr>languageId = ''python'', selectedText = ''x''\<rparr>)
         (sample_responses\<lparr>prefixes_response := None\<rparr>) empty_fsys
       = (None, empty_fsys)"
proof -
  let ?info = "\<lparr>name = ''Test'', prefixes = [''a'', ''b''], description = ''Test'',
                language = ''python''\<rparr>"
  let ?r = "sample_responses\<lparr>prefixes_response := None\<rparr>"
  let ?ed = "\<lparr>languageId = ''python'', selectedText = ''x''\<rparr>"
  have given: "collectSnippetInfo ''python'' sample_responses = Some ?info"
    by code_simp
  note kept = collectSnippetInfo_prefixes
                [of "''python''" sample_responses ?info, THEN conjunct1, THEN mp, OF given,
                 THEN conjunct2]
  have "''a'' \<in> set (prefixes ?info)"
    by simp
  with kept have first: "''a'' \<noteq> [] \<and> \<not> is_js_whitespace (hd ''a'')
      \<and> \<not> is_js_whitespace (last ''a'')"
    by (rule bspec)
  have dismissed: "prefixes_response ?r = None \<or> prefixes_response ?r = Some []"
    by simp
  note aborted = collectSnippetInfo_prefixes
                   [of _ ?r _ empty_object_parser "\<lparr>APPDATA = None, HOME = Some ''/home/u''\<rparr>"
                       "''Visual Studio Code''" "Some ?ed" empty_fsys ?ed,
                    THEN conjunct2, THEN mp, OF dismissed]
  from aborted have no_info: "collectSnippetInfo ''python'' ?r = None"
    by (rule conjunct1)
  have active: "Some ?ed = Some ?ed \<and> selectedText ?ed \<noteq> []"
    by simp
  have silent: "generateSnippet empty_object_parser \<lparr>APPDATA = None, HOME = Some ''/home/u''\<rparr>
         ''Visual Studio Code'' (Some ?ed) ?r empty_fsys = (None, empty_fsys)"
    by (rule aborted [THEN conjunct2, THEN conjunct2, THEN mp, OF active])
  have none: "prefixes_response ?r = None"
    by simp
  from given first none no_info silent show ?thesis
    by (intro conjI) (elim conjE, assumption)+
qed

section \<open>Claims about the path resolver\<close>

lemma take_length_eq_iff: "take (length sub) s = sub \<longleftrightarrow> (\<exists>ss. s = sub @ ss)"
proof
  assume "take (length sub) s = sub"
  then have "s = sub @ drop (length sub) s"
    by (metis append_take_drop_id)
  then show "\<exists>ss. s = sub @ ss" ..
next
  assume "\<exists>ss. s = sub @ ss"
  then show "take (length sub) s = sub" by auto
qed

lemma js_includes_iff: "js_includes s sub \<longleftrightarrow> (\<exists>ps ss. s = ps @ sub @ ss)"
proof (induction s)
  case Nil
  show ?case by auto
next
  case (Cons c cs)
  have "(\<exists>ps ss. c # cs = ps @ sub @ ss)
        \<longleftrightarrow> (\<exists>ss. c # cs = sub @ ss) \<or> (\<exists>ps ss. cs = ps @ sub @ ss)"
  proof
    assume "\<exists>ps ss. c # cs = ps @ sub @ ss"
    then obtain ps ss where eq: "c # cs = ps @ sub @ ss" by blast
    show "(\<exists>ss. c # cs = sub @ ss) \<or> (\<exists>ps ss. cs = ps @ sub @ ss)"
    proof (cases ps)
      case Nil
      with eq show ?thesis by auto
    next
      case (Cons p ps')
      with eq have "cs = ps' @ sub @ ss" by simp
      then show ?thesis by blast
    qed
  next
    assume "(\<exists>ss. c # cs = sub @ ss) \<or> (\<exists>ps ss. cs = ps @ sub @ ss)"
    then show "\<exists>ps ss. c # cs = ps @ sub @ ss"
    proof
      assume "\<exists>ss. c # cs = sub @ ss"
      then obtain ss where "c # cs = [] @ sub @ ss" by auto
      then show ?thesis by blast
    next
      assume "\<exists>ps ss. cs = ps @ sub @ ss"
      then obtain ps ss where "c # cs = (c # ps) @ sub @ ss" by auto
      then show ?thesis by blast
    qed
  qed
  with Cons.IH show ?case
    by (simp only: js_includes.simps take_length_eq_iff)
qed

text \<open>
  Claim C6. The folder of the editor is decided in three ways: the product name
  \<^verbatim>\<open>Visual Studio Code\<close> gives \<^verbatim>\<open>Code\<close>; another product name in which
  \<^verbatim>\<open>Cursor\<close> occurs gives \<^verbatim>\<open>Cursor\<close>; any other product name, such as
  \<^verbatim>\<open>FooEditor\<close>, is the folder itself. The path of the snippet file is made of the base
  directory, that folder, \<^verbatim>\<open>User\<close>, \<^verbatim>\<open>snippets\<close> and the language identifier followed
  by \<^verbatim>\<open>.json\<close>, in this order, and its last segment is always the language identifier
  followed by \<^verbatim>\<open>.json\<close>.
\<close>

theorem snippetsPath_three_way:
  "configFolder (getEditorInfo ''Visual Studio Code'') = ''Code''
   \<and> ((\<exists>ps ss. a = ps @ ''Cursor'' @ ss) \<and> a \<noteq> ''Visual Studio Code'' \<longrightarrow>
        configFolder (getEditorInfo a) = ''Cursor'')
   \<and> (\<not> (\<exists>ps ss. a = ps @ ''Cursor'' @ ss) \<and> a \<noteq> ''Visual Studio Code'' \<longrightarrow>
        configFolder (getEditorInfo a) = a)
   \<and> configFolder (getEditorInfo ''FooEditor'') = ''FooEditor''
   \<and> snippetsPath env a lang
       = path_join [baseDir env, configFolder (getEditorInfo a), ''User'', ''snippets'',
                    lang @ ''.json'']
   \<and> (baseDir env \<noteq> [] \<and> a \<noteq> [] \<longrightarrow>
        snippetsPath env a lang
        = [baseDir env, configFolder (getEditorInfo a), ''User'', ''snippets'', lang @ ''.json''])
   \<and> last (snippetsPath env a lang) = lang @ ''.json''"
proof (intro conjI impI)
  show "configFolder (getEditorInfo ''Visual Studio Code'') = ''Code''"
    by (simp add: configFolder_def getEditorInfo_def)
  show "configFolder (getEditorInfo ''FooEditor'') = ''FooEditor''"
    by (simp add: configFolder_def getEditorInfo_def)
  show "snippetsPath env a lang
       = path_join [baseDir env, configFolder (getEditorInfo a), ''User'', ''snippets'',
                    lang @ ''.json'']"
    by (simp add: snippetsPath_def)
  show "last (snippetsPath env a lang) = lang @ ''.json''"
    by (simp add: snippetsPath_def path_join_def)
next
  assume "(\<exists>ps ss. a = ps @ ''Cursor'' @ ss) \<and> a \<noteq> ''Visual Studio Code''"
  then show "configFolder (getEditorInfo a) = ''Cursor''"
    by (simp add: configFolder_def getEditorInfo_def js_includes_iff)
next
  assume "\<not> (\<exists>ps ss. a = ps @ ''Cursor'' @ ss) \<and> a \<noteq> ''Visual Studio Code''"
  then show "configFolder (getEditorInfo a) = a"
    by (simp add: configFolder_def getEditorInfo_def js_includes_iff)
next
  assume nonempty: "baseDir env \<noteq> [] \<and> a \<noteq> []"
  then have "configFolder (getEditorInfo a) \<noteq> []"
    by (simp add: configFolder_def getEditorInfo_def)
  with nonempty show "snippetsPath env a lang
        = [baseDir env, configFolder (getEditorInfo a), ''User'', ''snippets'', lang @ ''.json'']"
    by (simp add: snippetsPath_def path_join_def)
qed

theorem snippetsPath_three_way_witness:
  "''Cursor Nightly'' = [] @ ''Cursor'' @ '' Nightly''
   \<and> ''Cursor Nightly'' \<noteq> ''Visual Studio Code''
   \<and> configFolder (getEditorInfo ''Cursor Nightly'') = ''Cursor''
   \<and> \<not> js_includes ''FooEditor'' ''Cursor''
   \<and> ''FooEditor'' \<noteq> ''Visual Studio Code''
   \<and> configFolder (getEditorInfo ''FooEditor'') = ''FooEditor''
   \<and> baseDir sample_environment \<noteq> [] \<and> ''Cursor Nightly'' \<noteq> []
   \<and> snippetsPath sample_environment ''Cursor Nightly'' ''python''
       = [''/home/u'', ''Cursor'', ''User'', ''snippets'', ''python.json'']"
proof -
  note claim = snippetsPath_three_way [of "''Cursor Nightly''" sample_environment "''python''"]
  note other = snippetsPath_three_way [of "''FooEditor''" sample_environment "''python''"]
  have occurs: "''Cursor Nightly'' = [] @ ''Cursor'' @ '' Nightly''"
    by simp
  have differs: "''Cursor Nightly'' \<noteq> ''Visual Studio Code''"
    by simp
  from occurs differs
  have variant: "(\<exists>ps ss. ''Cursor Nightly'' = ps @ ''Cursor'' @ ss)
        \<and> ''Cursor Nightly'' \<noteq> ''Visual Studio Code''"
    by blast
  have cursor: "configFolder (getEditorInfo ''Cursor Nightly'') = ''Cursor''"
    by (rule claim [THEN conjunct2, THEN conjunct1, THEN mp, OF variant])
  have absent: "\<not> js_includes ''FooEditor'' ''Cursor''"
    by simp
  have foo: "''FooEditor'' \<noteq> ''Visual Studio Code''"
    by simp
  from absent foo
  have unknown: "\<not> (\<exists>ps ss. ''FooEditor'' = ps @ ''Cursor'' @ ss)
        \<and> ''FooEditor'' \<noteq> ''Visual Studio Code''"
    by (simp only: js_includes_iff simp_thms)
  have verbatim: "configFolder (getEditorInfo ''FooEditor'') = ''FooEditor''"
    by (rule other [THEN conjunct2, THEN conjunct2, THEN conjunct1, THEN mp, OF unknown])
  have base: "baseDir sample_environment = ''/home/u''"
    by (simp add: baseDir_def sample_environment_def)
  then have nonempty: "baseDir sample_environment \<noteq> [] \<and> ''Cursor Nightly'' \<noteq> []"
    by simp
  note composed = claim [THEN conjunct2, THEN conjunct2, THEN conjunct2, THEN conjunct2,
                         THEN conjunct2, THEN conjunct1, THEN mp, OF nonempty]
  have target: "snippetsPath sample_environment ''Cursor Nightly'' ''python''
       = [''/home/u'', ''Cursor'', ''User'', ''snippets'', ''python.json'']"
    unfolding composed base cursor by simp
  from occurs differs cursor absent foo verbatim nonempty target show ?thesis
    by (intro conjI) (elim conjE, assumption)+
qed

section \<open>Properties of the merge\<close>

lemma map_of_replace:
  "map_of (map (\<lambda>(k', v'). if k' = k then (k', v) else (k', v')) xs) x
   = (if x = k then (if k \<in> fst ` set xs then Some v else None) else map_of xs x)"
proof (induction xs)
  case Nil
  show ?case by simp
next
  case (Cons e xs)
  obtain a b where e: "e = (a, b)" by (cases e)
  show ?case
  proof (cases "a = k")
    case True
    with e show ?thesis by (simp add: Cons.IH)
  next
    case False
    with e Cons.IH show ?thesis by (cases "x = a") simp_all
  qed
qed

lemma map_of_set_property: "map_of (set_property obj k v) = (map_of obj)(k \<mapsto> v)"
proof (rule ext)
  fix x
  let ?P = "\<lambda>(k', _). is_array_index k' \<and> decimal_value k' < decimal_value k"
  show "map_of (set_property obj k v) x = ((map_of obj)(k \<mapsto> v)) x"
  proof (cases "k \<in> fst ` set obj")
    case True
    then have "map_of (set_property obj k v) x
               = (if x = k then Some v else map_of obj x)"
      by (simp only: set_property_def if_True map_of_replace)
    then show ?thesis by simp
  next
    case False
    then have absent: "map_of obj k = None"
      by (simp add: map_of_eq_None_iff)
    have obj: "takeWhile ?P obj @ dropWhile ?P obj = obj"
      by (rule takeWhile_dropWhile_id)
    have "k \<notin> fst ` set (takeWhile ?P obj)"
      using False set_takeWhileD by fastforce
    then have before: "map_of (takeWhile ?P obj) k = None"
      by (simp add: map_of_eq_None_iff)
    have ins: "map_of (takeWhile ?P obj @ [(k, v)] @ dropWhile ?P obj) x
               = (if x = k then Some v else map_of obj x)"
    proof (cases "x = k")
      case True
      with before show ?thesis
        by (simp add: map_of_append map_add_def)
    next
      case False
      have "map_of (takeWhile ?P obj @ [(k, v)] @ dropWhile ?P obj) x
            = (map_of ([(k, v)] @ dropWhile ?P obj) ++ map_of (takeWhile ?P obj)) x"
        by (simp only: map_of_append)
      also have "\<dots> = (map_of (dropWhile ?P obj) ++ map_of (takeWhile ?P obj)) x"
        using False by (simp add: map_add_def split: option.splits)
      also have "\<dots> = map_of (takeWhile ?P obj @ dropWhile ?P obj) x"
        by (simp only: map_of_append)
      also have "\<dots> = map_of obj x"
        by (simp only: obj)
      finally show ?thesis
        using False by simp
    qed
    have app: "map_of (obj @ [(k, v)]) x = (if x = k then Some v else map_of obj x)"
      using absent by (simp add: map_of_append map_add_def split: option.splits)
    from False have "map_of (set_property obj k v) x
               = (if x = k then Some v else map_of obj x)"
      unfolding set_property_def using ins app by (cases "is_array_index k") simp_all
    then show ?thesis by simp
  qed
qed

lemma others_set_property:
  "filter (\<lambda>(k', _). k' \<noteq> k) (set_property obj k v) = filter (\<lambda>(k', _). k' \<noteq> k) obj"
proof -
  let ?P = "\<lambda>(k', _). is_array_index k' \<and> decimal_value k' < decimal_value k"
  have replaced: "filter (\<lambda>(k', _). k' \<noteq> k)
          (map (\<lambda>(k', v'). if k' = k then (k', v) else (k', v')) xs)
        = filter (\<lambda>(k', _). k' \<noteq> k) xs" for xs
    by (induction xs) auto
  have "filter (\<lambda>(k', _). k' \<noteq> k) (takeWhile ?P obj @ [(k, v)] @ dropWhile ?P obj)
        = filter (\<lambda>(k', _). k' \<noteq> k) (takeWhile ?P obj)
          @ filter (\<lambda>(k', _). k' \<noteq> k) (dropWhile ?P obj)"
    by simp
  also have "\<dots> = filter (\<lambda>(k', _). k' \<noteq> k) (takeWhile ?P obj @ dropWhile ?P obj)"
    by (simp only: filter_append)
  also have "\<dots> = filter (\<lambda>(k', _). k' \<noteq> k) obj"
    by (simp only: takeWhile_dropWhile_id)
  finally have inserted:
    "filter (\<lambda>(k', _). k' \<noteq> k) (takeWhile ?P obj @ [(k, v)] @ dropWhile ?P obj)
     = filter (\<lambda>(k', _). k' \<noteq> k) obj" .
  show ?thesis
    unfolding set_property_def using replaced inserted by simp
qed

lemma keys_set_property_present:
  "k \<in> fst ` set obj \<Longrightarrow> map fst (set_property obj k v) = map fst obj"
proof -
  have "map fst (map (\<lambda>(k', v'). if k' = k then (k', v) else (k', v')) xs) = map fst xs" for xs
    by (induction xs) auto
  then show "k \<in> fst ` set obj \<Longrightarrow> map fst (set_property obj k v) = map fst obj"
    by (simp add: set_property_def)
qed

lemma distinct_set_property:
  assumes "distinct (map fst obj)"
  shows "distinct (map fst (set_property obj k v))"
proof (cases "k \<in> fst ` set obj")
  case True
  with assms show ?thesis by (simp add: keys_set_property_present)
next
  case False
  let ?P = "\<lambda>(k', _). is_array_index k' \<and> decimal_value k' < decimal_value k"
  have parts: "map fst (takeWhile ?P obj) @ map fst (dropWhile ?P obj) = map fst obj"
    by (simp only: map_append [symmetric] takeWhile_dropWhile_id)
  with assms have both: "distinct (map fst (takeWhile ?P obj) @ map fst (dropWhile ?P obj))"
    by (simp only:)
  have "set (takeWhile ?P obj) \<subseteq> set obj"
    by (auto dest: set_takeWhileD)
  with False have before: "k \<notin> set (map fst (takeWhile ?P obj))"
    by auto
  have "set (dropWhile ?P obj) \<subseteq> set obj"
    by (auto dest: set_dropWhileD)
  with False have after: "k \<notin> set (map fst (dropWhile ?P obj))"
    by auto
  from both before after
  have "distinct (map fst (takeWhile ?P obj) @ [k] @ map fst (dropWhile ?P obj))"
    by auto
  then have inserted: "distinct (map fst (takeWhile ?P obj @ [(k, v)] @ dropWhile ?P obj))"
    by simp
  from False assms have appended: "distinct (map fst (obj @ [(k, v)]))"
    by auto
  from False inserted appended show ?thesis
    unfolding set_property_def by (cases "is_array_index k") simp_all
qed

lemma js_ordered_prefix:
  assumes "js_ordered (xs @ ys)"
  shows "js_ordered xs"
proof (cases "\<forall>k \<in> set (map fst xs). is_array_index k")
  case True
  then have tw: "takeWhile is_array_index (map fst xs @ map fst ys)
                 = map fst xs @ takeWhile is_array_index (map fst ys)"
    by (intro takeWhile_append2) auto
  from True have all: "takeWhile is_array_index (map fst xs) = map fst xs"
    and none: "dropWhile is_array_index (map fst xs) = []"
    by auto
  from assms have "sorted_wrt (<) (map decimal_value (takeWhile is_array_index (map fst xs @ map fst ys)))"
    and "distinct (map fst xs @ map fst ys)"
    by (simp_all add: js_ordered_def Let_def)
  then have "sorted_wrt (<) (map decimal_value (map fst xs))" and "distinct (map fst xs)"
    unfolding tw by (simp_all add: sorted_wrt_append)
  then show ?thesis
    unfolding js_ordered_def Let_def all none by simp
next
  case False
  then obtain k where k: "k \<in> set (map fst xs)" "\<not> is_array_index k"
    by blast
  then have tw: "takeWhile is_array_index (map fst xs @ map fst ys)
                 = takeWhile is_array_index (map fst xs)"
    and dw: "dropWhile is_array_index (map fst xs @ map fst ys)
             = dropWhile is_array_index (map fst xs) @ map fst ys"
    by (auto intro: takeWhile_append1 dropWhile_append1)
  from assms
  have "sorted_wrt (<) (map decimal_value (takeWhile is_array_index (map fst xs @ map fst ys)))"
    and "distinct (map fst xs @ map fst ys)"
    and "list_all (\<lambda>k. \<not> is_array_index k) (dropWhile is_array_index (map fst xs @ map fst ys))"
    by (simp_all add: js_ordered_def Let_def)
  then show ?thesis
    unfolding tw dw js_ordered_def Let_def by simp
qed

lemma set_property_last:
  assumes "js_ordered (xs @ [(k, v)])"
  shows "set_property xs k v = xs @ [(k, v)]"
proof -
  from assms have dist: "distinct (map fst xs @ [k])"
    and sorted: "sorted_wrt (<) (map decimal_value (takeWhile is_array_index (map fst xs @ [k])))"
    and rest: "list_all (\<lambda>k. \<not> is_array_index k) (dropWhile is_array_index (map fst xs @ [k]))"
    by (simp_all add: js_ordered_def Let_def)
  from dist have fresh: "k \<notin> fst ` set xs"
    by auto
  show ?thesis
  proof (cases "is_array_index k")
    case False
    with fresh show ?thesis by (simp add: set_property_def)
  next
    case True
    have all: "\<forall>k' \<in> set (map fst xs). is_array_index k'"
    proof (rule ccontr)
      assume "\<not> (\<forall>k' \<in> set (map fst xs). is_array_index k')"
      then obtain k' where "k' \<in> set (map fst xs)" "\<not> is_array_index k'"
        by blast
      then have "dropWhile is_array_index (map fst xs @ [k])
                 = dropWhile is_array_index (map fst xs) @ [k]"
        by (intro dropWhile_append1)
      with rest True show False by simp
    qed
    then have "takeWhile is_array_index (map fst xs @ [k]) = map fst xs @ [k]"
      using True by (simp add: takeWhile_append2)
    with sorted have below: "\<forall>k' \<in> set (map fst xs). decimal_value k' < decimal_value k"
      by (simp add: sorted_wrt_append)
    let ?P = "\<lambda>(k', _). is_array_index k' \<and> decimal_value k' < decimal_value k"
    from all below have "\<forall>e \<in> set xs. ?P e"
      by auto
    then have "takeWhile ?P xs = xs" "dropWhile ?P xs = []"
      by auto
    with fresh True show ?thesis
      by (simp add: set_property_def)
  qed
qed

lemma spread_js_ordered:
  "js_ordered obj \<Longrightarrow> spread [] (JObj obj) = obj"
proof (induction obj rule: rev_induct)
  case Nil
  show ?case by (simp add: spread_def)
next
  case (snoc kv xs)
  obtain k v where kv: "kv = (k, v)" by (cases kv)
  from snoc.prems have "js_ordered xs" by (rule js_ordered_prefix)
  with snoc.IH have "spread [] (JObj xs) = xs" by simp
  moreover from snoc.prems kv have "set_property xs k v = xs @ [(k, v)]"
    by (simp add: set_property_last)
  ultimately show ?case
    using kv by (simp add: spread_def)
qed

section \<open>Claims about the merge\<close>

text \<open>
  Claim C5. For every mapping of existing snippets, given as the properties of an object
  in property order, every name and every entry, the merge gives the mapping with the
  name bound to the entry: every other key is bound to the value it had, the other
  entries follow each other in the order they had, no key occurs twice, and a name that
  was present keeps its place.
\<close>

theorem updatedSnippets_merge:
  "js_ordered M \<Longrightarrow>
     map_of (updatedSnippets (Some (JObj M)) n e) = (map_of M)(n \<mapsto> e)
     \<and> (\<forall>k. k \<noteq> n \<longrightarrow> map_of (updatedSnippets (Some (JObj M)) n e) k = map_of M k)
     \<and> filter (\<lambda>(k, _). k \<noteq> n) (updatedSnippets (Some (JObj M)) n e)
         = filter (\<lambda>(k, _). k \<noteq> n) M
     \<and> filter (\<lambda>k. k \<noteq> n) (map fst (updatedSnippets (Some (JObj M)) n e))
         = filter (\<lambda>k. k \<noteq> n) (map fst M)
     \<and> distinct (map fst (updatedSnippets (Some (JObj M)) n e))
     \<and> (n \<in> fst ` set M \<longrightarrow> map fst (updatedSnippets (Some (JObj M)) n e) = map fst M)"
proof -
  assume ordered: "js_ordered M"
  then have copy: "spread [] (JObj M) = M"
    by (rule spread_js_ordered)
  have merged: "updatedSnippets (Some (JObj M)) n e = set_property M n e"
    by (simp add: updatedSnippets_def copy)
  have bound: "map_of (updatedSnippets (Some (JObj M)) n e) = (map_of M)(n \<mapsto> e)"
    unfolding merged by (rule map_of_set_property)
  then have others: "\<forall>k. k \<noteq> n \<longrightarrow> map_of (updatedSnippets (Some (JObj M)) n e) k = map_of M k"
    by simp
  have entries: "filter (\<lambda>(k, _). k \<noteq> n) (updatedSnippets (Some (JObj M)) n e)
         = filter (\<lambda>(k, _). k \<noteq> n) M"
    unfolding merged by (rule others_set_property)
  have keys_of: "filter (\<lambda>k. k \<noteq> n) (map fst xs) = map fst (filter (\<lambda>(k, _). k \<noteq> n) xs)"
    for xs :: js_object
    by (induction xs) auto
  have keys: "filter (\<lambda>k. k \<noteq> n) (map fst (updatedSnippets (Some (JObj M)) n e))
         = filter (\<lambda>k. k \<noteq> n) (map fst M)"
    by (simp only: keys_of entries)
  from ordered have "distinct (map fst M)"
    by (simp add: js_ordered_def Let_def)
  then have once: "distinct (map fst (updatedSnippets (Some (JObj M)) n e))"
    unfolding merged by (rule distinct_set_property)
  have place: "n \<in> fst ` set M \<longrightarrow> map fst (updatedSnippets (Some (JObj M)) n e) = map fst M"
    unfolding merged by (simp add: keys_set_property_present)
  show ?thesis
    by (rule conjI [OF bound conjI [OF others conjI [OF entries conjI [OF keys
          conjI [OF once place]]]]])
qed

theorem updatedSnippets_merge_witness:
  "js_ordered sample_snippets
   \<and> updatedSnippets (Some (JObj sample_snippets)) ''b'' JNull
       = [(''1'', JNull), (''b'', JNull), (''a'', JStr ''x'')]
   \<and> ''a'' \<noteq> ''b''
   \<and> map_of (updatedSnippets (Some (JObj sample_snippets)) ''b'' JNull) ''a'' = Some (JStr ''x'')
   \<and> ''b'' \<in> fst ` set sample_snippets
   \<and> map fst (updatedSnippets (Some (JObj sample_snippets)) ''b'' JNull) = [''1'', ''b'', ''a'']"
proof -
  have index: "is_array_index ''1''"
    by (simp add: is_array_index_def is_digit_def decimal_value_def)
  have names: "\<not> is_array_index ''b''" "\<not> is_array_index ''a''"
    by (simp_all add: is_array_index_def is_digit_def)
  have ordered: "js_ordered sample_snippets"
    by (simp add: js_ordered_def sample_snippets_def index names)
  note claim = updatedSnippets_merge [OF ordered, of "''b''" JNull]
  have result: "updatedSnippets (Some (JObj sample_snippets)) ''b'' JNull
       = [(''1'', JNull), (''b'', JNull), (''a'', JStr ''x'')]"
    by (simp add: updatedSnippets_def spread_def sample_snippets_def set_property_def index names)
  have differ: "''a'' \<noteq> ''b''"
    by simp
  have "map_of (updatedSnippets (Some (JObj sample_snippets)) ''b'' JNull) ''a''
        = map_of sample_snippets ''a''"
    by (rule claim [THEN conjunct2, THEN conjunct1, rule_format, OF differ])
  then have other: "map_of (updatedSnippets (Some (JObj sample_snippets)) ''b'' JNull) ''a''
        = Some (JStr ''x'')"
    by (simp add: sample_snippets_def)
  have present: "''b'' \<in> fst ` set sample_snippets"
    by (simp add: sample_snippets_def)
  have "map fst (updatedSnippets (Some (JObj sample_snippets)) ''b'' JNull) = map fst sample_snippets"
    by (rule claim [THEN conjunct2, THEN conjunct2, THEN conjunct2, THEN conjunct2,
                    THEN conjunct2, THEN mp, OF present])
  then have order: "map fst (updatedSnippets (Some (JObj sample_snippets)) ''b'' JNull)
        = [''1'', ''b'', ''a'']"
    by (simp add: sample_snippets_def)
  from ordered result differ other present order show ?thesis
    by (intro conjI)
qed

section \<open>Properties of the persistence driver\<close>

lemma parse_error_not_Nil:
  "error (parseSnippetsFile parse content) = Some msg \<Longrightarrow> msg \<noteq> []"
  by (auto simp: parseSnippetsFile_def formatParseErrors_def split: parse_outcome.splits if_splits)

lemma ensure_directory_present:
  "is_dir fs d \<Longrightarrow> ensure_directory d fs = (Inr (), logged (ExistsSync d) fs)"
  by (simp add: ensure_directory_def existsSync_def)

lemma read_existing_present:
  "map_of (files fs) p = Some content \<Longrightarrow>
     read_existing p fs = (Inr content, logged (ReadFileSync p) (logged (ExistsSync p) fs))"
  by (simp add: read_existing_def existsSync_def readFileSync_def logged_def)

lemma read_existing_absent:
  "\<not> is_dir fs p \<Longrightarrow> map_of (files fs) p = None \<Longrightarrow>
     read_existing p fs = (Inr ''{}'', logged (ExistsSync p) fs)"
  by (simp add: read_existing_def existsSync_def)

lemma logged_fields:
  "dirs (logged c fs) = dirs fs" "files (logged c fs) = files fs"
  "trace (logged c fs) = trace fs @ [c]" "is_dir (logged c fs) p = is_dir fs p"
  by (simp_all add: logged_def is_dir_def)

lemma self_and_ancestors_length:
  "q \<in> set (self_and_ancestors d) \<Longrightarrow> length q \<le> length d"
  by (auto simp: self_and_ancestors_def)

lemma self_in_self_and_ancestors: "d \<noteq> [] \<Longrightarrow> d \<in> set (self_and_ancestors d)"
proof -
  assume "d \<noteq> []"
  then have "length d \<in> set [1..<Suc (length d)]" by (cases d) auto
  then have "take (length d) d \<in> set (self_and_ancestors d)"
    unfolding self_and_ancestors_def by (simp only: set_map image_eqI)
  then show ?thesis by simp
qed

lemma ensure_directory_ok:
  assumes "is_dir fs d \<or> \<not> list_ex (\<lambda>q. map_of (files fs) q \<noteq> None) (self_and_ancestors d)"
  shows "\<exists>fs'. ensure_directory d fs = (Inr (), fs') \<and> is_dir fs' d \<and> files fs' = files fs
              \<and> set (dirs fs') \<subseteq> set (dirs fs) \<union> set (self_and_ancestors d)
              \<and> (\<forall>c \<in> set (trace fs') - set (trace fs). c = ExistsSync d \<or> c = MkdirSync d)"
proof (cases "is_dir fs d")
  case True
  then show ?thesis
    by (auto simp: ensure_directory_present logged_fields)
next
  case False
  with assms have free: "\<not> list_ex (\<lambda>q. map_of (files fs) q \<noteq> None) (self_and_ancestors d)"
    by simp
  from False have "d \<noteq> []" by (simp add: is_dir_def)
  then have self: "d \<in> set (self_and_ancestors d)" by (rule self_in_self_and_ancestors)
  let ?fs' = "logged (MkdirSync d)
                (logged (ExistsSync d) fs
                   \<lparr>dirs := dirs fs @ filter (\<lambda>q. q \<notin> set (dirs fs)) (self_and_ancestors d)\<rparr>)"
  from free self have nofile: "map_of (files fs) d = None"
    by (auto simp: list_ex_iff)
  from False free nofile have run: "ensure_directory d fs = (Inr (), ?fs')"
    by (simp add: ensure_directory_def existsSync_def mkdirSync_def logged_fields)
  from self have "is_dir ?fs' d"
    by (auto simp: is_dir_def logged_def)
  moreover have "files ?fs' = files fs"
    by (simp add: logged_def)
  moreover have "set (dirs ?fs') \<subseteq> set (dirs fs) \<union> set (self_and_ancestors d)"
    by (auto simp: logged_def)
  moreover have "\<forall>c \<in> set (trace ?fs') - set (trace fs). c = ExistsSync d \<or> c = MkdirSync d"
    by (auto simp: logged_def)
  ultimately show ?thesis
    using run by blast
qed

section \<open>Claims about the persistence driver\<close>

text \<open>
  Claim C4. When the snippet file exists, in a directory that exists, and the parser
  returns an error report for its content, whether from reported syntax errors or from a
  thrown value, the save fails with \<^verbatim>\<open>Error parsing existing snippets: \<close> followed by
  that report. The only calls made are the two existence checks and the read: no
  directory is made, nothing is written, and the files and directories are as before.
\<close>

theorem saveSnippet_parse_failure:
  assumes "map_of (files fs) (resolve (snippetsPath env app (language info))) = Some content"
    and "is_dir fs (dirname (resolve (snippetsPath env app (language info))))"
    and "error (parseSnippetsFile parse content) = Some msg"
  shows "saveSnippet parse env app info sel fs
         = (Inl (Error (''Error parsing existing snippets: '' @ msg)),
            fs\<lparr>trace := trace fs @ [ExistsSync (dirname (resolve (snippetsPath env app (language info)))),
                                     ExistsSync (resolve (snippetsPath env app (language info))),
                                     ReadFileSync (resolve (snippetsPath env app (language info)))]\<rparr>)
         \<and> files (snd (saveSnippet parse env app info sel fs)) = files fs
         \<and> dirs (snd (saveSnippet parse env app info sel fs)) = dirs fs
         \<and> map_of (files (snd (saveSnippet parse env app info sel fs)))
              (resolve (snippetsPath env app (language info))) = Some content"
proof -
  let ?p = "resolve (snippetsPath env app (language info))"
  let ?fs1 = "logged (ExistsSync (dirname ?p)) fs"
  let ?fs2 = "logged (ReadFileSync ?p) (logged (ExistsSync ?p) ?fs1)"
  from assms(2) have dir: "ensure_directory (dirname ?p) fs = (Inr (), ?fs1)"
    by (rule ensure_directory_present)
  from assms(1) have "map_of (files ?fs1) ?p = Some content"
    by (simp add: logged_fields)
  then have got: "read_existing ?p ?fs1 = (Inr content, ?fs2)"
    by (rule read_existing_present)
  from assms(3) have "msg \<noteq> []"
    by (rule parse_error_not_Nil)
  with assms(3) have failed: "parse_merge_write parse ?p info sel content ?fs2
      = (Inl (Error (''Error parsing existing snippets: '' @ msg)), ?fs2)"
    by (simp add: parse_merge_write_def)
  have run: "saveSnippet parse env app info sel fs
      = (Inl (Error (''Error parsing existing snippets: '' @ msg)), ?fs2)"
    by (simp add: saveSnippet_def Let_def dir got failed)
  have state: "?fs2 = fs\<lparr>trace := trace fs @ [ExistsSync (dirname ?p), ExistsSync ?p,
                                                 ReadFileSync ?p]\<rparr>"
    by (simp add: logged_def)
  from run state assms(1) show ?thesis
    by simp
qed

theorem saveSnippet_parse_failure_witness:
  "map_of (files broken_fsys)
     (resolve (snippetsPath sample_environment ''Visual Studio Code'' (language sample_info)))
   = Some (''{'' @ [LF] @ ''x}'')
   \<and> is_dir broken_fsys
         (dirname (resolve (snippetsPath sample_environment ''Visual Studio Code'' (language sample_info))))
   \<and> error (parseSnippetsFile reporting_parser (''{'' @ [LF] @ ''x}''))
       = Some (''Parsing errors detected:'' @ [LF] @ ''Line 2, Column 1: 1'' @ [LF] @ ''x}'')
   \<and> fst (saveSnippet reporting_parser sample_environment ''Visual Studio Code'' sample_info
            ''x'' broken_fsys)
       = Inl (Error (''Error parsing existing snippets: '' @ ''Parsing errors detected:'' @ [LF]
                     @ ''Line 2, Column 1: 1'' @ [LF] @ ''x}''))
   \<and> files (snd (saveSnippet reporting_parser sample_environment ''Visual Studio Code''
                   sample_info ''x'' broken_fsys))
       = [(sample_file, ''{'' @ [LF] @ ''x}'')]"
proof -
  have target: "resolve (snippetsPath sample_environment ''Visual Studio Code'' (language sample_info))
                = sample_file"
    by code_simp
  have exists: "map_of (files broken_fsys)
      (resolve (snippetsPath sample_environment ''Visual Studio Code'' (language sample_info)))
      = Some (''{'' @ [LF] @ ''x}'')"
    unfolding target by (simp add: broken_fsys_def)
  have parent: "is_dir broken_fsys
      (dirname (resolve (snippetsPath sample_environment ''Visual Studio Code'' (language sample_info))))"
    unfolding target by (simp add: is_dir_def dirname_def broken_fsys_def sample_file_def)
  have report: "error (parseSnippetsFile reporting_parser (''{'' @ [LF] @ ''x}''))
      = Some (''Parsing errors detected:'' @ [LF] @ ''Line 2, Column 1: 1'' @ [LF] @ ''x}'')"
    by code_simp
  note claim = saveSnippet_parse_failure [OF exists parent report, of "''x''"]
  from claim have failure: "fst (saveSnippet reporting_parser sample_environment
        ''Visual Studio Code'' sample_info ''x'' broken_fsys)
      = Inl (Error (''Error parsing existing snippets: '' @ ''Parsing errors detected:'' @ [LF]
                    @ ''Line 2, Column 1: 1'' @ [LF] @ ''x}''))"
    by (simp only: fst_conv)
  from claim have "files (snd (saveSnippet reporting_parser sample_environment
        ''Visual Studio Code'' sample_info ''x'' broken_fsys)) = files broken_fsys"
    by (elim conjE)
  then have untouched: "files (snd (saveSnippet reporting_parser sample_environment
        ''Visual Studio Code'' sample_info ''x'' broken_fsys))
      = [(sample_file, ''{'' @ [LF] @ ''x}'')]"
    by (simp add: broken_fsys_def)
  from exists parent report failure untouched show ?thesis
    by (intro conjI)
qed

section \<open>Properties of a successful save\<close>

lemma updatedSnippets_empty: "updatedSnippets (Some (JObj [])) n e = [(n, e)]"
  by (simp add: updatedSnippets_def spread_def set_property_def)

lemma map_of_updatedSnippets_name: "map_of (updatedSnippets snips n e) n = Some e"
  by (simp add: updatedSnippets_def map_of_set_property)

lemma writeFileSync_ok:
  assumes "is_dir fs (dirname p)" and "\<not> is_dir fs p"
  shows "\<exists>fs'. writeFileSync p c fs = (Inr (), fs') \<and> map_of (files fs') p = Some c
              \<and> (\<forall>q. q \<noteq> p \<longrightarrow> map_of (files fs') q = map_of (files fs) q)
              \<and> dirs fs' = dirs fs"
proof -
  let ?fs' = "logged (WriteFileSync p c) (fs\<lparr>files := (p, c) # filter (\<lambda>(q, _). q \<noteq> p) (files fs)\<rparr>)"
  have kept: "map_of (filter (\<lambda>(q, _). q \<noteq> p) xs) q = map_of xs q" if "q \<noteq> p"
    for q and xs :: "(path \<times> string) list"
    using that by (induction xs) auto
  from assms have "writeFileSync p c fs = (Inr (), ?fs')"
    by (simp add: writeFileSync_def)
  moreover have "map_of (files ?fs') p = Some c"
    by (simp add: logged_def)
  moreover have "\<forall>q. q \<noteq> p \<longrightarrow> map_of (files ?fs') q = map_of (files fs) q"
    by (simp add: logged_def kept)
  moreover have "dirs ?fs' = dirs fs"
    by (simp add: logged_def)
  ultimately show ?thesis
    by blast
qed

lemma writeFileSync_Inr:
  "writeFileSync p c fs = (Inr u, fs') \<Longrightarrow> map_of (files fs') p = Some c"
  by (auto simp: writeFileSync_def logged_def split: if_splits)

lemma saveSnippet_success_content:
  assumes "saveSnippet parse env app info sel fs = (Inr u, fs')"
  shows "\<exists>snips. map_of (files fs') (resolve (snippetsPath env app (language info)))
           = Some (JSON_stringify (JObj (updatedSnippets snips (name info) (newSnippet info sel))))"
proof -
  let ?p = "resolve (snippetsPath env app (language info))"
  from assms obtain fs1 where "ensure_directory (dirname ?p) fs = (Inr (), fs1)"
    by (auto simp: saveSnippet_def Let_def split: prod.splits sum.splits)
  with assms obtain content fs2 where "read_existing ?p fs1 = (Inr content, fs2)"
    and "parse_merge_write parse ?p info sel content fs2 = (Inr u, fs')"
    by (auto simp: saveSnippet_def Let_def split: prod.splits sum.splits)
  then have "writeFileSync ?p
      (JSON_stringify (JObj (updatedSnippets (snippets (parseSnippetsFile parse content))
                               (name info) (newSnippet info sel)))) fs2 = (Inr u, fs')"
    by (auto simp: parse_merge_write_def Let_def split: option.splits if_splits)
  then show ?thesis
    by (blast dest: writeFileSync_Inr)
qed

lemma saveSnippet_new_file:
  assumes lib: "parse ''{}'' snippet_parse_options = Returned (JObj []) []"
    and nodir: "\<not> is_dir fs (resolve (snippetsPath env app (language info)))"
    and nofile: "map_of (files fs) (resolve (snippetsPath env app (language info))) = None"
    and way: "is_dir fs (dirname (resolve (snippetsPath env app (language info))))
              \<or> \<not> list_ex (\<lambda>q. map_of (files fs) q \<noteq> None)
                     (self_and_ancestors (dirname (resolve (snippetsPath env app (language info)))))"
  shows "\<exists>fs'. saveSnippet parse env app info sel fs = (Inr (), fs')
      \<and> map_of (files fs') (resolve (snippetsPath env app (language info)))
          = Some (JSON_stringify (JObj [(name info, newSnippet info sel)]))
      \<and> is_dir fs' (dirname (resolve (snippetsPath env app (language info))))
      \<and> (\<forall>q. q \<noteq> resolve (snippetsPath env app (language info))
               \<longrightarrow> map_of (files fs') q = map_of (files fs) q)"
proof -
  let ?p = "resolve (snippetsPath env app (language info))"
  let ?c = "JSON_stringify (JObj [(name info, newSnippet info sel)])"
  from ensure_directory_ok [OF way] obtain fs1 where
    dir: "ensure_directory (dirname ?p) fs = (Inr (), fs1)"
    and isdir1: "is_dir fs1 (dirname ?p)" and files1: "files fs1 = files fs"
    and dirs1: "set (dirs fs1) \<subseteq> set (dirs fs) \<union> set (self_and_ancestors (dirname ?p))"
    by blast
  from nodir have p: "?p \<noteq> []" and root: "?p \<noteq> [[SLASH]]"
    and "?p \<notin> set (dirs fs)"
    by (auto simp: is_dir_def)
  moreover have "?p \<notin> set (self_and_ancestors (dirname ?p))"
  proof
    assume "?p \<in> set (self_and_ancestors (dirname ?p))"
    then have "length ?p \<le> length (dirname ?p)" by (rule self_and_ancestors_length)
    moreover from root have "length (dirname ?p) = length ?p - 1" by (simp add: dirname_def)
    moreover from p have "length ?p \<noteq> 0" by simp
    ultimately show False by arith
  qed
  ultimately have nodir1: "\<not> is_dir fs1 ?p"
    using dirs1 by (auto simp: is_dir_def)
  from nofile files1 have "map_of (files fs1) ?p = None"
    by simp
  with nodir1 have got: "read_existing ?p fs1 = (Inr ''{}'', logged (ExistsSync ?p) fs1)"
    by (rule read_existing_absent)
  let ?fs2 = "logged (ExistsSync ?p) fs1"
  from lib have parsed: "parseSnippetsFile parse ''{}'' = \<lparr>snippets = Some (JObj []), error = None\<rparr>"
    by (simp add: parseSnippetsFile_def)
  then have pmw: "parse_merge_write parse ?p info sel ''{}'' ?fs2 = writeFileSync ?p ?c ?fs2"
    by (simp add: parse_merge_write_def updatedSnippets_empty)
  from isdir1 nodir1 have "is_dir ?fs2 (dirname ?p)" "\<not> is_dir ?fs2 ?p"
    by (simp_all add: logged_fields)
  from writeFileSync_ok [OF this, of ?c] obtain fs' where
    written: "writeFileSync ?p ?c ?fs2 = (Inr (), fs')"
    and content: "map_of (files fs') ?p = Some ?c"
    and others: "\<forall>q. q \<noteq> ?p \<longrightarrow> map_of (files fs') q = map_of (files ?fs2) q"
    and dirs': "dirs fs' = dirs ?fs2"
    by blast
  have run: "saveSnippet parse env app info sel fs = (Inr (), fs')"
    by (simp add: saveSnippet_def Let_def dir got pmw written)
  from isdir1 dirs' have "is_dir fs' (dirname ?p)"
    by (simp add: is_dir_def logged_fields)
  moreover from others files1 have "\<forall>q. q \<noteq> ?p \<longrightarrow> map_of (files fs') q = map_of (files fs) q"
    by (simp add: logged_fields)
  ultimately show ?thesis
    using run content by blast
qed

section \<open>The end-to-end scenario\<close>

lemma scenario_stringify: "JSON_stringify (JObj [(''Test'', scenario_entry)]) = scenario_text"
  by code_simp

lemma scenario_escape:
  "escapeSnippetText scenario_selection
   = [''line1'', [BACKSLASH] @ ''tline2'' @ [BACKSLASH, BACKSLASH] @ ''end'']"
  by code_simp

lemma scenario_newSnippet: "newSnippet sample_info scenario_selection = scenario_entry"
  by code_simp

lemma scenario_info:
  "d = None \<or> d = Some [] \<Longrightarrow>
   collectSnippetInfo ''python''
     \<lparr>name_response = Some ''Test'', prefixes_response = Some ''a, b'',
      description_response = d, language_response = l\<rparr> = Some sample_info"
  by (auto simp: collectSnippetInfo_def determineLanguage_def sample_info_def trim_def
      is_js_whitespace_def)

lemma scenario_selection_not_Nil: "scenario_selection \<noteq> []"
  by (simp add: scenario_selection_def)

text \<open>
  Claim C8. The selected text is \<^verbatim>\<open>line1\<close>, a newline, a tab, \<^verbatim>\<open>line2\<close>, a backslash
  and \<^verbatim>\<open>end\<close>; the name is \<^verbatim>\<open>Test\<close>, the prefixes answer \<^verbatim>\<open>a, b\<close>, the
  description dismissed or empty, the language of the document \<^verbatim>\<open>python\<close>. The snippet
  file does not exist, nothing stands in the way of its directory, and the parse
  mechanism accepts the text \<^verbatim>\<open>{}\<close> as the empty object. Then the command reports that
  the snippet was added; the file holds the serialisation of the object that binds
  \<^verbatim>\<open>Test\<close> to the prefixes \<^verbatim>\<open>a\<close> and \<^verbatim>\<open>b\<close>, the body of \<^verbatim>\<open>line1\<close> and the
  escaped second line, and the description \<^verbatim>\<open>Test\<close>, which is the expected text; and
  the directory of the file exists.
\<close>

theorem generateSnippet_end_to_end:
  assumes "parse ''{}'' snippet_parse_options = Returned (JObj []) []"
    and "\<not> is_dir fs (resolve (snippetsPath env app ''python''))"
    and "map_of (files fs) (resolve (snippetsPath env app ''python'')) = None"
    and "is_dir fs (dirname (resolve (snippetsPath env app ''python'')))
         \<or> \<not> list_ex (\<lambda>q. map_of (files fs) q \<noteq> None)
                (self_and_ancestors (dirname (resolve (snippetsPath env app ''python''))))"
    and "d = None \<or> d = Some []"
  shows "fst (generateSnippet parse env app
                (Some \<lparr>languageId = ''python'', selectedText = scenario_selection\<rparr>)
                \<lparr>name_response = Some ''Test'', prefixes_response = Some ''a, b'',
                 description_response = d, language_response = l\<rparr> fs)
         = Some (InformationMessage
                   (''Snippet '' @ [DQUOTE] @ ''Test'' @ [DQUOTE] @ '' added successfully!''))
       \<and> map_of (files (snd (generateSnippet parse env app
                (Some \<lparr>languageId = ''python'', selectedText = scenario_selection\<rparr>)
                \<lparr>name_response = Some ''Test'', prefixes_response = Some ''a, b'',
                 description_response = d, language_response = l\<rparr> fs)))
            (resolve (snippetsPath env app ''python''))
          = Some (JSON_stringify (JObj [(''Test'', scenario_entry)]))
       \<and> JSON_stringify (JObj [(''Test'', scenario_entry)]) = scenario_text
       \<and> is_dir (snd (generateSnippet parse env app
                (Some \<lparr>languageId = ''python'', selectedText = scenario_selection\<rparr>)
                \<lparr>name_response = Some ''Test'', prefixes_response = Some ''a, b'',
                 description_response = d, language_response = l\<rparr> fs))
            (dirname (resolve (snippetsPath env app ''python'')))
       \<and> escapeSnippetText scenario_selection
          = [''line1'', [BACKSLASH] @ ''tline2'' @ [BACKSLASH, BACKSLASH] @ ''end'']"
proof -
  let ?r = "\<lparr>name_response = Some ''Test'', prefixes_response = Some ''a, b'',
             description_response = d, language_response = l\<rparr>"
  let ?ed = "\<lparr>languageId = ''python'', selectedText = scenario_selection\<rparr>"
  have lang: "language sample_info = ''python''" and nm: "name sample_info = ''Test''"
    by (simp_all add: sample_info_def)
  from assms(5) have info: "collectSnippetInfo ''python'' ?r = Some sample_info"
    by (rule scenario_info)
  have nodir: "\<not> is_dir fs (resolve (snippetsPath env app (language sample_info)))"
    unfolding lang by (rule assms(2))
  have nofile: "map_of (files fs) (resolve (snippetsPath env app (language sample_info))) = None"
    unfolding lang by (rule assms(3))
  have way: "is_dir fs (dirname (resolve (snippetsPath env app (language sample_info))))
     \<or> \<not> list_ex (\<lambda>q. map_of (files fs) q \<noteq> None)
            (self_and_ancestors (dirname (resolve (snippetsPath env app (language sample_info)))))"
    unfolding lang by (rule assms(4))
  from saveSnippet_new_file
         [where parse = parse and info = sample_info and sel = scenario_selection,
          OF assms(1) nodir nofile way]
  obtain fs' where
    saved: "saveSnippet parse env app sample_info scenario_selection fs = (Inr (), fs')"
    and content: "map_of (files fs') (resolve (snippetsPath env app ''python''))
                  = Some (JSON_stringify (JObj [(''Test'', scenario_entry)]))"
    and parent: "is_dir fs' (dirname (resolve (snippetsPath env app ''python'')))"
    unfolding lang nm scenario_newSnippet by blast
  have run: "generateSnippet parse env app (Some ?ed) ?r fs
      = (Some (InformationMessage
                 (''Snippet '' @ [DQUOTE] @ ''Test'' @ [DQUOTE] @ '' added successfully!'')), fs')"
    by (simp add: generateSnippet_def scenario_selection_not_Nil info saved nm)
  show ?thesis
    unfolding run fst_conv snd_conv
    using content parent scenario_stringify scenario_escape by (intro conjI) simp_all
qed

theorem generateSnippet_end_to_end_witness:
  "empty_object_parser ''{}'' snippet_parse_options = Returned (JObj []) []
   \<and> resolve (snippetsPath sample_environment ''Visual Studio Code'' ''python'') = sample_file
   \<and> \<not> is_dir empty_fsys sample_file
   \<and> map_of (files empty_fsys) sample_file = None
   \<and> \<not> list_ex (\<lambda>q. map_of (files empty_fsys) q \<noteq> None)
          (self_and_ancestors (dirname sample_file))
   \<and> map_of (files (snd (generateSnippet empty_object_parser sample_environment
                  ''Visual Studio Code''
                  (Some \<lparr>languageId = ''python'', selectedText = scenario_selection\<rparr>)
                  \<lparr>name_response = Some ''Test'', prefixes_response = Some ''a, b'',
                   description_response = None, language_response = None\<rparr> empty_fsys)))
         sample_file
       = Some scenario_text
   \<and> is_dir (snd (generateSnippet empty_object_parser sample_environment
                  ''Visual Studio Code''
                  (Some \<lparr>languageId = ''python'', selectedText = scenario_selection\<rparr>)
                  \<lparr>name_response = Some ''Test'', prefixes_response = Some ''a, b'',
                   description_response = None, language_response = None\<rparr> empty_fsys))
         (dirname sample_file)"
proof -
  have lib: "empty_object_parser ''{}'' snippet_parse_options = Returned (JObj []) []"
    by (simp add: empty_object_parser_def)
  have target: "resolve (snippetsPath sample_environment ''Visual Studio Code'' ''python'') = sample_file"
    by code_simp
  have nodir: "\<not> is_dir empty_fsys sample_file"
    by (simp add: is_dir_def empty_fsys_def sample_file_def)
  have nofile: "map_of (files empty_fsys) sample_file = None"
    by (simp add: empty_fsys_def)
  have free: "\<not> list_ex (\<lambda>q. map_of (files empty_fsys) q \<noteq> None)
                (self_and_ancestors (dirname sample_file))"
    by (simp add: empty_fsys_def list_ex_iff)
  then have way: "is_dir empty_fsys (dirname sample_file)
       \<or> \<not> list_ex (\<lambda>q. map_of (files empty_fsys) q \<noteq> None)
              (self_and_ancestors (dirname sample_file))"
    by (rule disjI2)
  have omitted: "(None :: string option) = None \<or> (None :: string option) = Some []"
    by simp
  note claim = generateSnippet_end_to_end
                 [where parse = empty_object_parser and fs = empty_fsys
                    and env = sample_environment and app = "''Visual Studio Code''"
                    and d = None and l = None,
                  unfolded target, OF lib nodir nofile way omitted]
  from claim have holds: "map_of (files (snd (generateSnippet empty_object_parser
                  sample_environment ''Visual Studio Code''
                  (Some \<lparr>languageId = ''python'', selectedText = scenario_selection\<rparr>)
                  \<lparr>name_response = Some ''Test'', prefixes_response = Some ''a, b'',
                   description_response = None, language_response = None\<rparr> empty_fsys)))
         sample_file
       = Some (JSON_stringify (JObj [(''Test'', scenario_entry)]))"
    by (elim conjE)
  from claim have "JSON_stringify (JObj [(''Test'', scenario_entry)]) = scenario_text"
    by (elim conjE)
  with holds have written: "map_of (files (snd (generateSnippet empty_object_parser
                  sample_environment ''Visual Studio Code''
                  (Some \<lparr>languageId = ''python'', selectedText = scenario_selection\<rparr>)
                  \<lparr>name_response = Some ''Test'', prefixes_response = Some ''a, b'',
                   description_response = None, language_response = None\<rparr> empty_fsys)))
         sample_file
       = Some scenario_text"
    by (simp only:)
  from claim have parent: "is_dir (snd (generateSnippet empty_object_parser sample_environment
                  ''Visual Studio Code''
                  (Some \<lparr>languageId = ''python'', selectedText = scenario_selection\<rparr>)
                  \<lparr>name_response = Some ''Test'', prefixes_response = Some ''a, b'',
                   description_response = None, language_response = None\<rparr> empty_fsys))
         (dirname sample_file)"
    by (elim conjE)
  from lib target nodir nofile free written parent show ?thesis
    by (intro conjI)
qed

section \<open>Claims about the written entry\<close>

text \<open>
  Claim C9. The entry that the program makes for a snippet has, as its \<^verbatim>\<open>prefix\<close>
  field, the array of the prefixes, each a string; with exactly one prefix it is the
  array of that one string, never the string itself. The serialisation of the field
  starts and ends with a square bracket. Whenever the save succeeds, the file holds the
  serialisation of an object in which the snippet name is bound to that entry.
\<close>

theorem saveSnippet_prefix_array:
  "prefix_field (newSnippet info sel) = Some (JArr (map JStr (prefixes info)))
   \<and> is_string_array (JArr (map JStr (prefixes info)))
   \<and> (\<forall>s. prefix_field (newSnippet info sel) \<noteq> Some (JStr s))
   \<and> (prefixes info = [x] \<longrightarrow> prefix_field (newSnippet info sel) = Some (JArr [JStr x]))
   \<and> hd (stringify ind (JArr (map JStr (prefixes info)))) = CHR ''[''
   \<and> last (stringify ind (JArr (map JStr (prefixes info)))) = CHR '']''
   \<and> (fst (saveSnippet parse env app info sel fs) = Inr u \<longrightarrow>
        (\<exists>obj. map_of (files (snd (saveSnippet parse env app info sel fs)))
                 (resolve (snippetsPath env app (language info)))
               = Some (JSON_stringify (JObj obj))
             \<and> map_of obj (name info) = Some (newSnippet info sel)))"
proof (intro conjI impI allI)
  show field: "prefix_field (newSnippet info sel) = Some (JArr (map JStr (prefixes info)))"
    by (simp add: prefix_field_def newSnippet_def)
  show "is_string_array (JArr (map JStr (prefixes info)))"
    by (simp add: list_all_iff)
  show "prefix_field (newSnippet info sel) \<noteq> Some (JStr s)" for s
    by (simp add: field)
  show "hd (stringify ind (JArr (map JStr (prefixes info)))) = CHR ''[''"
    by simp
  show "last (stringify ind (JArr (map JStr (prefixes info)))) = CHR '']''"
    by simp
next
  assume "prefixes info = [x]"
  then show "prefix_field (newSnippet info sel) = Some (JArr [JStr x])"
    by (simp add: prefix_field_def newSnippet_def)
next
  assume "fst (saveSnippet parse env app info sel fs) = Inr u"
  then have "saveSnippet parse env app info sel fs
             = (Inr u, snd (saveSnippet parse env app info sel fs))"
    by (metis prod.collapse)
  from saveSnippet_success_content [OF this] obtain snips where
    "map_of (files (snd (saveSnippet parse env app info sel fs)))
       (resolve (snippetsPath env app (language info)))
     = Some (JSON_stringify (JObj (updatedSnippets snips (name info) (newSnippet info sel))))"
    by blast
  then show "\<exists>obj. map_of (files (snd (saveSnippet parse env app info sel fs)))
                 (resolve (snippetsPath env app (language info)))
               = Some (JSON_stringify (JObj obj))
             \<and> map_of obj (name info) = Some (newSnippet info sel)"
    using map_of_updatedSnippets_name by blast
qed

theorem saveSnippet_prefix_array_witness:
  "prefixes (sample_info\<lparr>prefixes := [''a'']\<rparr>) = [''a'']
   \<and> prefix_field (newSnippet (sample_info\<lparr>prefixes := [''a'']\<rparr>) ''x'') = Some (JArr [JStr ''a''])
   \<and> fst (saveSnippet empty_object_parser sample_environment ''Visual Studio Code''
             (sample_info\<lparr>prefixes := [''a'']\<rparr>) ''x'' empty_fsys) = Inr ()
   \<and> map_of (files (snd (saveSnippet empty_object_parser sample_environment
                           ''Visual Studio Code'' (sample_info\<lparr>prefixes := [''a'']\<rparr>) ''x''
                           empty_fsys)))
         (resolve (snippetsPath sample_environment ''Visual Studio Code''
            (language (sample_info\<lparr>prefixes := [''a'']\<rparr>)))) \<noteq> None"
proof -
  let ?info = "sample_info\<lparr>prefixes := [''a'']\<rparr>"
  note claim = saveSnippet_prefix_array
                 [of ?info "''x''" "''a''" "[]" empty_object_parser sample_environment
                     "''Visual Studio Code''" empty_fsys "()"]
  have one: "prefixes ?info = [''a'']"
    by simp
  have array: "prefix_field (newSnippet ?info ''x'') = Some (JArr [JStr ''a''])"
    by (rule claim [THEN conjunct2, THEN conjunct2, THEN conjunct2, THEN conjunct1,
                    THEN mp, OF one])
  have saved: "fst (saveSnippet empty_object_parser sample_environment ''Visual Studio Code''
                      ?info ''x'' empty_fsys) = Inr ()"
    by code_simp
  from claim [THEN conjunct2, THEN conjunct2, THEN conjunct2, THEN conjunct2,
              THEN conjunct2, THEN conjunct2, THEN mp, OF saved]
  have held: "map_of (files (snd (saveSnippet empty_object_parser sample_environment
                           ''Visual Studio Code'' ?info ''x'' empty_fsys)))
         (resolve (snippetsPath sample_environment ''Visual Studio Code'' (language ?info))) \<noteq> None"
    by auto
  from one array saved held show ?thesis
    by (intro conjI)
qed

section \<open>Properties of path normalisation\<close>

lemma js_split_no_separator: "sep \<notin> set s \<Longrightarrow> js_split sep s = [s]"
  by (induction s) (auto split: list.splits)

lemma foldl_push_plain:
  "\<forall>c \<in> set cs. c \<noteq> [] \<and> c \<noteq> ''.'' \<and> c \<noteq> ''..'' \<Longrightarrow>
     foldl (push_component up) res cs = res @ cs"
  by (induction cs arbitrary: res) (simp_all add: push_component_def)

text \<open>
  Segments that are not empty, hold no slash and are no dots are their own components:
  for such segments the location is the list of the segments.
\<close>

lemma resolve_plain:
  assumes "\<forall>s \<in> set p. s \<noteq> [] \<and> SLASH \<notin> set s \<and> s \<noteq> ''.'' \<and> s \<noteq> ''..''"
  shows "resolve p = p"
proof -
  from assms have keep: "filter (\<lambda>s. s \<noteq> []) p = p"
    by (simp add: filter_id_conv)
  have "\<forall>s \<in> set q. SLASH \<notin> set s \<Longrightarrow> concat (map (js_split SLASH) q) = q"
    for q :: "string list"
    by (induction q) (simp_all add: js_split_no_separator)
  with assms have comps: "concat (map (js_split SLASH) p) = p"
    by simp
  have relative: "(case p of [] \<Rightarrow> False | s # _ \<Rightarrow> hd s = SLASH) = False"
  proof (cases p)
    case Nil
    then show ?thesis by simp
  next
    case (Cons s ss)
    with assms have "s \<noteq> []" "SLASH \<notin> set s" by simp_all
    then have "hd s \<noteq> SLASH" by (cases s) auto
    with Cons show ?thesis by simp
  qed
  from assms have "foldl (push_component True) [] p = [] @ p"
    by (intro foldl_push_plain) simp
  then show ?thesis
    by (simp add: resolve_def Let_def keep comps relative normalizeString_def)
qed

text \<open>
  A language identifier that holds a slash puts the file one directory further down, and
  that directory is the one \<^verbatim>\<open>saveSnippet\<close> checks and makes.
\<close>

lemma resolve_language_with_separator:
  "resolve (snippetsPath sample_environment ''Visual Studio Code'' ''c/c++'')
   = [[SLASH], ''home'', ''u'', ''Code'', ''User'', ''snippets'', ''c'', ''c++.json'']
   \<and> dirname (resolve (snippetsPath sample_environment ''Visual Studio Code'' ''c/c++''))
     = [[SLASH], ''home'', ''u'', ''Code'', ''User'', ''snippets'', ''c'']"
  by code_simp

lemma resolve_dots:
  "resolve [''a'', ''..'', ''.'', ''b/../c''] = [''c'']
   \<and> resolve [''..'', ''a''] = [''..'', ''a'']
   \<and> resolve [''/..'', ''a''] = [[SLASH], ''a'']"
  by code_simp

end
